theory Spec2Isabelle
  imports Main
begin

section \<open>JavaScript values used by the script\<close>

text \<open>
  Environment variables, command-line parameters and regular-expression captures are
  strings that may be \<open>undefined\<close>; they are modelled as \<open>string option\<close>.
  A value is truthy when it is a non-empty string.  Interpolating \<open>undefined\<close> into a
  template literal prints the nine characters \<open>undefined\<close>.
\<close>

definition truthy :: "string option \<Rightarrow> bool" where
  "truthy v = (case v of None \<Rightarrow> False | Some s \<Rightarrow> s \<noteq> [])"

definition js_str :: "string option \<Rightarrow> string" where
  "js_str v = (case v of None \<Rightarrow> ''undefined'' | Some s \<Rightarrow> s)"

section \<open>Regular expressions\<close>

text \<open>
  The script matches with JavaScript regular expressions under the \<open>i\<close> flag.  The
  syntax tree below has exactly the constructs the script's four patterns use:
  literals (compared after case folding), the dot, a greedy \<open>[^...]+\<close>, the
  assertions \<open>^\<close>, \<open>$\<close> and \<open>\b\<close>, sequence, alternation, the greedy \<open>?\<close>
  and capture groups.  The matcher returns every way to match, in the order a
  backtracking engine tries them, so the head of the list is the match the engine
  reports.  A matcher state is the text before the position, the text after it and
  the captures.
\<close>

datatype re =
    Lit char
  | Dot
  | PlusNoneOf "char list"
  | Bol
  | Eol
  | WordB
  | Seq re re
  | Alt re re
  | Opt re
  | Grp nat re

type_synonym captures = "nat \<Rightarrow> string option"
type_synonym mstate = "string \<times> string \<times> captures"

definition canon :: "char \<Rightarrow> char" where
  "canon c = (let n = (of_char c :: nat) in if 97 \<le> n \<and> n \<le> 122 then char_of (n - 32) else c)"

definition word_char :: "char \<Rightarrow> bool" where
  "word_char c = (let n = (of_char c :: nat) in
     (97 \<le> n \<and> n \<le> 122) \<or> (65 \<le> n \<and> n \<le> 90) \<or> (48 \<le> n \<and> n \<le> 57) \<or> n = 95)"

definition line_terminator :: "char \<Rightarrow> bool" where
  "line_terminator c = (of_char c = (10 :: nat) \<or> of_char c = (13 :: nat))"

fun plus_run :: "(char \<Rightarrow> bool) \<Rightarrow> string \<Rightarrow> string \<Rightarrow> captures \<Rightarrow> mstate list" where
  "plus_run P p [] cs = []"
| "plus_run P p (x # xs) cs =
     (if P x then plus_run P (p @ [x]) xs cs @ [(p @ [x], xs, cs)] else [])"

fun ms :: "re \<Rightarrow> mstate \<Rightarrow> mstate list" where
  "ms (Lit c) (p, q, cs) =
     (case q of [] \<Rightarrow> [] | x # xs \<Rightarrow> if canon x = canon c then [(p @ [x], xs, cs)] else [])"
| "ms Dot (p, q, cs) =
     (case q of [] \<Rightarrow> [] | x # xs \<Rightarrow> if line_terminator x then [] else [(p @ [x], xs, cs)])"
| "ms (PlusNoneOf S) (p, q, cs) = plus_run (\<lambda>x. canon x \<notin> canon ` set S) p q cs"
| "ms Bol (p, q, cs) = (if p = [] then [(p, q, cs)] else [])"
| "ms Eol (p, q, cs) = (if q = [] then [(p, q, cs)] else [])"
| "ms WordB (p, q, cs) =
     (if (p \<noteq> [] \<and> word_char (last p)) \<noteq> (q \<noteq> [] \<and> word_char (hd q))
      then [(p, q, cs)] else [])"
| "ms (Seq a b) s = concat (map (ms b) (ms a s))"
| "ms (Alt a b) s = ms a s @ ms b s"
| "ms (Opt a) s = ms a s @ [s]"
| "ms (Grp i a) (p, q, cs) =
     map (\<lambda>(p', q', cs'). (p', q', cs'(i \<mapsto> drop (length p) p'))) (ms a (p, q, cs))"

text \<open>
  \<open>RegExp.prototype.exec\<close> without the \<open>g\<close> flag tries every start index from the
  left and reports the first match; capture 0 is the matched text.
\<close>

fun exec_from :: "re \<Rightarrow> string \<Rightarrow> string \<Rightarrow> captures option" where
  "exec_from r p [] =
     (case ms r (p, [], Map.empty) of
        [] \<Rightarrow> None
      | (p', q', cs) # _ \<Rightarrow> Some (cs(0 \<mapsto> drop (length p) p')))"
| "exec_from r p (x # xs) =
     (case ms r (p, x # xs, Map.empty) of
        [] \<Rightarrow> exec_from r (p @ [x]) xs
      | (p', q', cs) # _ \<Rightarrow> Some (cs(0 \<mapsto> drop (length p) p')))"

definition exec :: "re \<Rightarrow> string \<Rightarrow> captures option" where
  "exec r s = exec_from r [] s"

definition test :: "re \<Rightarrow> string \<Rightarrow> bool" where
  "test r s = (exec r s \<noteq> None)"

text \<open>
  \<open>cat\<close> writes a sequence of patterns, \<open>str\<close> the literals of a string.  (The empty
  sequence is the pattern \<open>Opt Bol\<close>, which matches the empty string.)
\<close>

fun cat :: "re list \<Rightarrow> re" where
  "cat [] = Opt Bol"
| "cat [r] = r"
| "cat (r # rs) = Seq r (cat rs)"

definition str :: "string \<Rightarrow> re list" where
  "str s = map Lit s"

section \<open>Repository references: \<open>parseUrl\<close> and \<open>getRepo\<close>\<close>

definition scheme :: re where
  "scheme =
     Alt (cat (str ''http'' @ [Opt (Lit CHR ''s'')]))
    (Alt (cat (str ''git''))
    (Alt (cat (str ''git+ssh''))
         (cat (str ''git+http'' @ [Opt (Lit CHR ''s'')]))))"

definition parseUrl1 :: re where
  "parseUrl1 =
     Seq Bol (Seq scheme (cat (str ''://github'' @ [Dot] @ str ''com/'' @
       [Grp 1 (PlusNoneOf ''/''), Lit CHR ''/'', Grp 2 (PlusNoneOf ''/.''),
        Alt (Lit CHR ''/'') (Alt (cat (str ''.git'' @ [WordB])) Eol)])))"

definition parseUrl2 :: re where
  "parseUrl2 =
     Seq Bol (cat (str ''github:'' @
       [Grp 1 (PlusNoneOf ''/''), Lit CHR ''/'', Grp 2 (PlusNoneOf ''#''),
        Alt (Lit CHR ''#'') Eol]))"

definition parseUrl3 :: re where
  "parseUrl3 =
     Seq Bol (cat [Grp 1 (PlusNoneOf '':/''), Lit CHR ''/'', Grp 2 (PlusNoneOf ''#''),
        Alt (Lit CHR ''#'') Eol])"

definition parseUrl :: "re list" where
  "parseUrl = [parseUrl1, parseUrl2, parseUrl3]"

fun first_match :: "re list \<Rightarrow> string \<Rightarrow> captures option" where
  "first_match [] url = None"
| "first_match (r # rs) url =
     (case exec r url of Some result \<Rightarrow> Some result | None \<Rightarrow> first_match rs url)"

definition getRepo :: "string option \<Rightarrow> captures option" where
  "getRepo url =
     (case url of
        None \<Rightarrow> None
      | Some u \<Rightarrow> if u = [] then None else first_match parseUrl u)"

definition owner :: "captures \<Rightarrow> string option" where
  "owner result = result 1"

definition name :: "captures \<Rightarrow> string option" where
  "name result = result 2"


section \<open>The process and its surroundings\<close>

text \<open>
  Everything the script reads from or does to the outside is a field of \<open>world\<close>:
  the runtime constants of \<open>process\<close>, the results of \<open>spawnSync\<close>, the file-system
  calls, the HTTP server's answer to a GET, the \<open>zlib\<close> codecs (absent when the
  runtime lacks them) and the outcome of a child process started with
  \<open>child_process.exec\<close>.  The mutable part is \<open>process.env\<close>, which \<open>main\<close> updates,
  and the trace of effects in the order they happen.
\<close>

type_synonym bytes = "char list"

datatype error =
    TypeError
  | HttpStatus int string
  | Transport string
  | Killed string
  | ExitCode int
  | ExecError string

record spawn_result =
  status :: "int option"
  signal :: "string option"
  stdout :: "string option"
  stderr :: "string option"

text \<open>
  What the server does with one GET.  \<open>NetError e\<close>: the request emits \<open>error\<close>.
  \<open>Response statusCode location chunks ended\<close>: the response callback runs with this
  status and this \<open>Location\<close> header, the response emits these \<open>data\<close> chunks, and it
  emits \<open>end\<close> exactly when \<open>ended\<close> is true.  When the connection is closed in the middle
  of the body, the response emits \<open>aborted\<close> and \<open>close\<close> but never \<open>end\<close>, and the request
  emits no \<open>error\<close>: this is \<open>ended = False\<close>.
\<close>

datatype response =
    NetError string
  | Response int "string option" "bytes list" bool

datatype child_outcome =
    Exit "int option" "string option"
  | Error string

record package =
  github :: "string option"
  repository_type :: "string option"
  repository_url :: "string option"
  version :: "string option"
  scripts_verify_build :: "string option"
  scripts_test :: "string option"

record world =
  process_platform :: string
  process_arch :: string
  process_versions_modules :: string
  process_argv :: "string list"
  spawnSync :: "string \<Rightarrow> string list \<Rightarrow> spawn_result"
  path_join :: "string \<Rightarrow> string \<Rightarrow> string"
  path_dirname :: "string \<Rightarrow> string"
  existsSync :: "string \<Rightarrow> bool"
  read_package :: "string \<Rightarrow> package option"
  fsp_access :: "string \<Rightarrow> bool"
  fsp_mkdir :: "string \<Rightarrow> bool"
  fsp_writeFile :: "string \<Rightarrow> bytes \<Rightarrow> bool"
  https_get :: "string \<Rightarrow> response"
  zlib_brotliDecompress :: "(bytes \<Rightarrow> bytes option) option"
  zlib_gunzip :: "(bytes \<Rightarrow> bytes option) option"
  child_exec :: "string \<Rightarrow> child_outcome"

datatype event =
    Log string
  | Request string
  | Mkdir string bool
  | WriteFile string bytes bool
  | Exec string bool

record state =
  env :: "string \<Rightarrow> string option"
  trace :: "event list"

definition emit :: "event \<Rightarrow> state \<Rightarrow> state" where
  "emit e s = s\<lparr>trace := trace s @ [e]\<rparr>"

definition log :: "string \<Rightarrow> state \<Rightarrow> state" where
  "log msg s = emit (Log msg) s"

definition num_truthy :: "int option \<Rightarrow> bool" where
  "num_truthy v = (case v of None \<Rightarrow> False | Some n \<Rightarrow> n \<noteq> 0)"

section \<open>\<open>getPlatform\<close>\<close>

fun indexOf_from :: "string \<Rightarrow> string \<Rightarrow> int \<Rightarrow> int" where
  "indexOf_from [] sub i = (if sub = [] then i else - 1)"
| "indexOf_from (x # xs) sub i =
     (if take (length sub) (x # xs) = sub then i else indexOf_from xs sub (i + 1))"

definition indexOf :: "string \<Rightarrow> string \<Rightarrow> int" where
  "indexOf s sub = indexOf_from s sub 0"

text \<open>
  \<open>result.stdout.toString().indexOf('musl') >= 0\<close>: when \<open>spawnSync\<close> could not start
  the command, \<open>stdout\<close> and \<open>stderr\<close> are \<open>null\<close> and the property access raises a
  \<open>TypeError\<close>.
\<close>

definition mentions_musl :: "string option \<Rightarrow> error + bool" where
  "mentions_musl out =
     (case out of None \<Rightarrow> Inl TypeError | Some text \<Rightarrow> Inr (indexOf text ''musl'' \<ge> 0))"

definition getPlatform :: "world \<Rightarrow> error + string" where
  "getPlatform w =
     (let platform = process_platform w in
      if platform \<noteq> ''linux'' then Inr platform
      else
        let result = spawnSync w ''getconf'' [''GNU_LIBC_VERSION''] in
        if \<not> num_truthy (status result) \<and> \<not> truthy (signal result) then Inr platform
        else
          let result = spawnSync w ''ldd'' [''--version''] in
          if truthy (signal result) then Inr platform
          else
            case (if \<not> num_truthy (status result) then mentions_musl (stdout result) else Inr False) of
              Inl e \<Rightarrow> Inl e
            | Inr True \<Rightarrow> Inr (platform @ ''-musl'')
            | Inr False \<Rightarrow>
                (case (if status result = Some 1 then mentions_musl (stderr result) else Inr False) of
                   Inl e \<Rightarrow> Inl e
                 | Inr True \<Rightarrow> Inr (platform @ ''-musl'')
                 | Inr False \<Rightarrow> Inr platform))"

section \<open>Command-line parameters\<close>

fun array_indexOf_from :: "string list \<Rightarrow> string \<Rightarrow> int \<Rightarrow> int" where
  "array_indexOf_from [] v i = - 1"
| "array_indexOf_from (x # xs) v i = (if x = v then i else array_indexOf_from xs v (i + 1))"

definition getParam :: "world \<Rightarrow> string \<Rightarrow> string \<Rightarrow> string" where
  "getParam w name' defaultValue =
     (let index = array_indexOf_from (process_argv w) (''--'' @ name') 0 in
      if index > 0 then
        (if nat (index + 1) < length (process_argv w) then process_argv w ! nat (index + 1) else '''')
      else defaultValue)"

definition artifactPath :: "world \<Rightarrow> string" where
  "artifactPath w = getParam w ''artifact'' ''''"

definition prefix :: "world \<Rightarrow> string" where
  "prefix w = getParam w ''prefix'' ''''"

definition suffix :: "world \<Rightarrow> string" where
  "suffix w = getParam w ''suffix'' ''''"

definition mirrorHost :: "world \<Rightarrow> string" where
  "mirrorHost w = getParam w ''host'' ''''"

definition mirrorEnvVar :: "world \<Rightarrow> string" where
  "mirrorEnvVar w = (let v = getParam w ''host-var'' '''' in if v \<noteq> [] then v else ''DOWNLOAD_HOST'')"

section \<open>\<open>getAssetUrlPrefix\<close>\<close>

definition getAssetUrlPrefix :: "world \<Rightarrow> string \<Rightarrow> state \<Rightarrow> string option" where
  "getAssetUrlPrefix w platform s =
     (let url = (if truthy (env s ''npm_package_github'') then env s ''npm_package_github''
                 else if env s ''npm_package_repository_type'' = Some ''git''
                      then env s ''npm_package_repository_url'' else None);
          result = getRepo url;
          host = (if mirrorHost w \<noteq> [] then mirrorHost w
                  else if truthy (env s (mirrorEnvVar w)) then js_str (env s (mirrorEnvVar w))
                  else ''https://github.com'')
      in case result of
           None \<Rightarrow> None
         | Some result \<Rightarrow>
             Some (host @ ''/'' @ js_str (result 1) @ ''/'' @ js_str (result 2) @
                   ''/releases/download/'' @ js_str (env s ''npm_package_version'') @ ''/'' @
                   prefix w @ platform @ ''-'' @ process_arch w @ ''-'' @
                   process_versions_modules w @ suffix w))"

section \<open>\<open>isDev\<close>, \<open>run\<close> and \<open>isVerified\<close>\<close>

definition isDev :: "world \<Rightarrow> state \<Rightarrow> bool" where
  "isDev w s =
     (if truthy (env s ''DEVELOPMENT_SKIP_GETTING_ASSET'') then True
      else if fsp_access w ''.development'' then True
      else False)"

text \<open>
  \<open>run\<close> settles on the first of the child's \<open>exit\<close> and \<open>error\<close> events (the \<open>closed\<close>
  flag drops a later one).  On \<open>exit\<close> it rejects with \<open>signal || code\<close> when that is
  truthy and resolves with \<open>0\<close> otherwise; on \<open>error\<close> it rejects with the error.
  The trace records the command and whether its output is forwarded.
\<close>

definition run :: "world \<Rightarrow> string \<Rightarrow> bool \<Rightarrow> state \<Rightarrow> (error + int) \<times> state" where
  "run w cmd suppressOutput s =
     (let s' = emit (Exec cmd (\<not> suppressOutput \<or>
                 truthy (env s ''DEVELOPMENT_SHOW_VERIFICATION_RESULTS''))) s in
      case child_exec w cmd of
        Exit code sig \<Rightarrow>
          (if truthy sig then (Inl (Killed (js_str sig)), s')
           else case code of
                  None \<Rightarrow> (Inr 0, s')
                | Some n \<Rightarrow> if n \<noteq> 0 then (Inl (ExitCode n), s') else (Inr 0, s'))
      | Error e \<Rightarrow> (Inl (ExecError e), s'))"

definition verify_with :: "world \<Rightarrow> string \<Rightarrow> state \<Rightarrow> bool \<times> state" where
  "verify_with w cmd s =
     (case run w cmd True s of
        (Inr _, s') \<Rightarrow> (True, s')
      | (Inl e, s') \<Rightarrow> (False, log ''The verification has failed: building from sources ...'' s'))"

definition isVerified :: "world \<Rightarrow> state \<Rightarrow> bool \<times> state" where
  "isVerified w s =
     (if truthy (env s ''npm_package_scripts_verify_build'') then verify_with w ''npm run verify-build'' s
      else if truthy (env s ''npm_package_scripts_test'') then verify_with w ''npm test'' s
      else (False, log ''No verify-build nor test scripts were found -- no way to verify the build automatically.'' s))"

section \<open>\<open>get\<close> and \<open>write\<close>\<close>

text \<open>The script's \<open>write\<close> is \<open>write_file\<close> here.\<close>

text \<open>
  The response handler of \<open>get\<close>: a status in 300..399 with a truthy \<open>Location\<close>
  header starts \<open>get\<close> again on that location, with no bound on the depth; any other
  status but 200 rejects; otherwise the \<open>data\<close> chunks are collected (\<open>null\<close> when there
  was none) and the promise resolves on \<open>end\<close>.  The handlers listen to nothing else:
  when a response with status 200 never emits \<open>end\<close>, the promise neither resolves nor
  rejects.  A promise that never settles is the value \<open>None\<close>; so is a redirect loop.
  Whatever awaits such a promise never goes on.
\<close>

definition on_data :: "bytes option \<Rightarrow> bytes \<Rightarrow> bytes option" where
  "on_data buffer data = (case buffer of Some b \<Rightarrow> Some (b @ data) | None \<Rightarrow> Some data)"

partial_function (option) get :: "world \<Rightarrow> string \<Rightarrow> state \<Rightarrow> ((error + bytes option) \<times> state) option" where
  "get w url s =
     (case https_get w url of
        NetError e \<Rightarrow> Some (Inl (Transport e), emit (Request url) s)
      | Response statusCode location chunks ended \<Rightarrow>
          if 300 \<le> statusCode \<and> statusCode < 400 \<and> truthy location
          then get w (js_str location) (emit (Request url) s)
          else if statusCode \<noteq> 200 then Some (Inl (HttpStatus statusCode url), emit (Request url) s)
          else if ended then Some (Inr (foldl on_data None chunks), emit (Request url) s)
          else None)"

declare get.simps [code]

definition write_file :: "world \<Rightarrow> string \<Rightarrow> bytes \<Rightarrow> state \<Rightarrow> bool \<times> state" where
  "write_file w name' data s =
     (let dir = path_dirname w name' in
      if \<not> fsp_mkdir w dir then (False, emit (Mkdir dir False) s)
      else (fsp_writeFile w name' data,
            emit (WriteFile name' data (fsp_writeFile w name' data)) (emit (Mkdir dir True) s)))"


section \<open>\<open>main\<close>\<close>

text \<open>
  \<open>main\<close> is modelled block by block, in the order of its text: \<open>locate_package_json\<close>
  is the first \<open>if\<close> of the block \<open>checks\<close>, \<open>load_package\<close> the second with its \<open>try\<close>,
  \<open>attempt\<close> the body of either \<open>try\<close> block of the download, \<open>download\<close> the two
  guarded attempts with the variable \<open>copied\<close>, \<open>checks\<close> the whole labelled block and
  \<open>main\<close> the block followed by the fallback build.  A result \<open>None\<close> means that an
  awaited \<open>get\<close> never settles.
\<close>

definition package_json_re :: re where
  "package_json_re = cat ([WordB] @ str ''package'' @ [Lit CHR ''.''] @ str ''json'' @ [Eol])"

definition or_empty :: "string option \<Rightarrow> string" where
  "or_empty v = (case v of None \<Rightarrow> '''' | Some x \<Rightarrow> x)"

definition locate_package_json :: "world \<Rightarrow> state \<Rightarrow> state" where
  "locate_package_json w s =
     (if \<not> truthy (env s ''npm_package_json'') \<and> truthy (env s ''PWD'') then
        (let package_json_path = path_join w (js_str (env s ''PWD'')) ''package.json'' in
         if existsSync w package_json_path
         then s\<lparr>env := (env s)(''npm_package_json'' \<mapsto> package_json_path)\<rparr>
         else s)
      else s)"

text \<open>
  \<open>read_package\<close> stands for \<open>JSON.parse(await fsp.readFile(path))\<close> followed by the
  six property reads; it is \<open>None\<close> when any of them throws, which the script
  catches.  A field of the package is \<open>None\<close> when the property is missing or falsy.
\<close>

definition load_package :: "world \<Rightarrow> state \<Rightarrow> state option" where
  "load_package w s =
     (if truthy (env s ''npm_package_json'') \<and>
         test package_json_re (js_str (env s ''npm_package_json''))
      then
        (case read_package w (js_str (env s ''npm_package_json'')) of
           None \<Rightarrow> None
         | Some pkg \<Rightarrow>
             Some (s\<lparr>env := (env s)
               (''npm_package_github'' \<mapsto> or_empty (github pkg),
                ''npm_package_repository_type'' \<mapsto> or_empty (repository_type pkg),
                ''npm_package_repository_url'' \<mapsto> or_empty (repository_url pkg),
                ''npm_package_version'' \<mapsto> or_empty (version pkg),
                ''npm_package_scripts_verify_build'' \<mapsto> or_empty (scripts_verify_build pkg),
                ''npm_package_scripts_test'' \<mapsto> or_empty (scripts_test pkg))\<rparr>))
      else Some s)"

text \<open>
  One codec attempt: the body of one of the two \<open>try\<close> blocks.  Every failure inside
  is caught and leaves \<open>copied\<close> false; a codec called on the \<open>null\<close> of an empty
  response body throws.
\<close>

definition trying_message :: "string \<Rightarrow> string \<Rightarrow> string" where
  "trying_message url_prefix ext = ''Trying '' @ url_prefix @ ext @ '' ...''"

definition writing_message :: "string \<Rightarrow> string" where
  "writing_message path = ''Writing to '' @ path @ '' ...''"

definition attempt ::
  "world \<Rightarrow> string \<Rightarrow> (bytes \<Rightarrow> bytes option) \<Rightarrow> string \<Rightarrow> state \<Rightarrow> (bool \<times> state) option" where
  "attempt w ext decompress url_prefix s =
     (case get w (url_prefix @ ext) (log (trying_message url_prefix ext) s) of
        None \<Rightarrow> None
      | Some (Inl e, s') \<Rightarrow> Some (False, s')
      | Some (Inr artifact, s') \<Rightarrow>
          (let s'' = log (writing_message (artifactPath w)) s' in
           case Option.bind artifact decompress of
             None \<Rightarrow> Some (False, s'')
           | Some data \<Rightarrow> Some (write_file w (artifactPath w) data s'')))"

definition download :: "world \<Rightarrow> string \<Rightarrow> state \<Rightarrow> (bool \<times> state) option" where
  "download w url_prefix s =
     (case (case zlib_brotliDecompress w of
              None \<Rightarrow> Some (False, s)
            | Some brotliDecompress \<Rightarrow> attempt w ''.br'' brotliDecompress url_prefix s) of
        None \<Rightarrow> None
      | Some (copied, s') \<Rightarrow>
          (case zlib_gunzip w of
             None \<Rightarrow> Some (copied, s')
           | Some gunzip \<Rightarrow>
               if \<not> copied then attempt w ''.gz'' gunzip url_prefix s' else Some (copied, s')))"

text \<open>
  The labelled block \<open>checks\<close>: the result is true when \<open>main\<close> returns from inside
  the block (after logging \<open>Done.\<close>) and false when control leaves the block, by
  \<open>break checks\<close> or at its end.
\<close>

definition checks :: "world \<Rightarrow> string \<Rightarrow> state \<Rightarrow> (bool \<times> state) option" where
  "checks w platform s0 =
     (case load_package w (locate_package_json w s0) of
        None \<Rightarrow> Some (False, log ''Could not retrieve and parse package.json.'' (locate_package_json w s0))
      | Some s \<Rightarrow>
          if artifactPath w = [] then Some (False, log ''No artifact path was specified with --artifact.'' s)
          else if isDev w s then Some (False, log ''Development flag was detected.'' s)
          else
            (case getAssetUrlPrefix w platform s of
               None \<Rightarrow> Some (False, log ''No github repository was identified.'' s)
             | Some url_prefix \<Rightarrow>
                 if url_prefix = [] then Some (False, log ''No github repository was identified.'' s)
                 else
                   (case download w url_prefix s of
                      None \<Rightarrow> None
                    | Some (copied, s') \<Rightarrow>
                        if copied then
                          (case isVerified w s' of
                             (True, s'') \<Rightarrow> Some (True, log ''Done.'' s'')
                           | (False, s'') \<Rightarrow> Some (False, s''))
                        else Some (False, s'))))"

definition main :: "world \<Rightarrow> string \<Rightarrow> state \<Rightarrow> ((error + unit) \<times> state) option" where
  "main w platform s =
     (case checks w platform s of
        None \<Rightarrow> None
      | Some (True, s') \<Rightarrow> Some (Inr (), s')
      | Some (False, s') \<Rightarrow>
          (case run w ''npm run rebuild'' False (log ''Building locally ...'' s') of
             (Inl e, s'') \<Rightarrow> Some (Inl e, s'')
           | (Inr _, s'') \<Rightarrow> Some (Inr (), s'')))"

text \<open>
  The module computes \<open>platform\<close> before it calls \<open>main\<close>; an exception there ends the
  process before \<open>main\<close> starts.
\<close>

definition script :: "world \<Rightarrow> state \<Rightarrow> ((error + unit) \<times> state) option" where
  "script w s =
     (case getPlatform w of
        Inl e \<Rightarrow> Some (Inl e, s)
      | Inr platform \<Rightarrow> main w platform s)"


section \<open>The specification's reading of the URL and of the verification command\<close>

text \<open>
  These definitions follow the words of the specification, to be compared with the
  functions above: the repository reference and the asset request with the canonical
  form of the asset URL, the precedence of the hosts, and the order in which the
  verification command is chosen.
\<close>

record repository_ref =
  ref_owner :: string
  ref_name :: string

record asset_request =
  request_host :: string
  request_version :: string
  request_prefix :: string
  platform_tag :: string
  request_arch :: string
  abi_version :: string
  request_suffix :: string

definition canonical_url :: "repository_ref \<Rightarrow> asset_request \<Rightarrow> string" where
  "canonical_url repo req =
     request_host req @ ''/'' @ ref_owner repo @ ''/'' @ ref_name repo @ ''/releases/download/'' @
     request_version req @ ''/'' @ request_prefix req @ platform_tag req @ ''-'' @
     request_arch req @ ''-'' @ abi_version req @ request_suffix req"

definition resolve_host :: "string \<Rightarrow> string option \<Rightarrow> string" where
  "resolve_host override env_value =
     (if override \<noteq> [] then override
      else case env_value of
             Some v \<Rightarrow> if v \<noteq> [] then v else ''https://github.com''
           | None \<Rightarrow> ''https://github.com'')"

definition selected_command :: "(string \<Rightarrow> string option) \<Rightarrow> string option" where
  "selected_command e =
     (if truthy (e ''npm_package_scripts_verify_build'') then Some ''npm run verify-build''
      else if truthy (e ''npm_package_scripts_test'') then Some ''npm test''
      else None)"

section \<open>What a trace shows\<close>

definition is_build :: "event \<Rightarrow> bool" where
  "is_build e = (case e of Exec c f \<Rightarrow> c = ''npm run rebuild'' | _ \<Rightarrow> False)"

definition builds :: "event list \<Rightarrow> nat" where
  "builds tr = length (filter is_build tr)"

definition is_request :: "event \<Rightarrow> bool" where
  "is_request e = (case e of Request u \<Rightarrow> True | _ \<Rightarrow> False)"

definition requests :: "event list \<Rightarrow> event list" where
  "requests tr = filter is_request tr"

definition succeeded :: "child_outcome \<Rightarrow> bool" where
  "succeeded out = (case out of Exit code sig \<Rightarrow> \<not> truthy sig \<and> \<not> num_truthy code | Error e \<Rightarrow> False)"

definition rejection :: "child_outcome \<Rightarrow> error option" where
  "rejection out =
     (case out of
        Exit code sig \<Rightarrow>
          (if truthy sig then Some (Killed (js_str sig))
           else case code of None \<Rightarrow> None | Some n \<Rightarrow> if n \<noteq> 0 then Some (ExitCode n) else None)
      | Error e \<Rightarrow> Some (ExecError e))"

definition is_verdict :: "world \<Rightarrow> event \<Rightarrow> bool" where
  "is_verdict w e =
     (case e of
        Exec c f \<Rightarrow> (c = ''npm run verify-build'' \<or> c = ''npm test'') \<and> succeeded (child_exec w c)
      | _ \<Rightarrow> False)"

definition verified :: "world \<Rightarrow> event list \<Rightarrow> bool" where
  "verified w tr = list_ex (is_verdict w) tr"

definition is_written :: "string \<Rightarrow> event \<Rightarrow> bool" where
  "is_written p e = (case e of WriteFile q d ok \<Rightarrow> q = p \<and> ok | _ \<Rightarrow> False)"

definition wrote :: "string \<Rightarrow> event list \<Rightarrow> bool" where
  "wrote p tr = list_ex (is_written p) tr"

definition trying :: "string \<Rightarrow> event \<Rightarrow> bool" where
  "trying ext e =
     (case e of
        Log m \<Rightarrow> take 7 m = ''Trying '' \<and> drop (length m - length (ext @ '' ...'')) m = ext @ '' ...''
      | _ \<Rightarrow> False)"

definition attempts :: "event list \<Rightarrow> string list" where
  "attempts tr =
     concat (map (\<lambda>e. if trying ''.br'' e then [''.br''] else if trying ''.gz'' e then [''.gz''] else []) tr)"

definition after_write :: "string \<Rightarrow> event list \<Rightarrow> event list" where
  "after_write p tr = drop 1 (dropWhile (\<lambda>e. \<not> is_written p e) tr)"

text \<open>
  \<open>follows w u ls\<close>: the server answers \<open>u\<close> with a redirect to the first URL of \<open>ls\<close>,
  that one with a redirect to the next, and so on.  \<open>settles w\<close>: every \<open>get\<close> settles,
  that is, the server sends no endless chain of redirects and every response with
  status 200 that a \<open>get\<close> reaches emits \<open>end\<close>.
\<close>

definition redirects :: "world \<Rightarrow> string \<Rightarrow> string \<Rightarrow> bool" where
  "redirects w u l =
     (case https_get w u of
        NetError e \<Rightarrow> False
      | Response c loc chunks ended \<Rightarrow> 300 \<le> c \<and> c < 400 \<and> l \<noteq> [] \<and> loc = Some l)"

fun follows :: "world \<Rightarrow> string \<Rightarrow> string list \<Rightarrow> bool" where
  "follows w u [] = True"
| "follows w u (l # ls) = (redirects w u l \<and> follows w l ls)"

definition settles :: "world \<Rightarrow> bool" where
  "settles w = (\<forall>u s. get w u s \<noteq> None)"

section \<open>Auxiliary definitions for the proofs\<close>

text \<open>
  \<open>needs c r\<close> is a syntactic check: every match of \<open>r\<close> consumes the literal \<open>c\<close>.
\<close>

fun needs :: "char \<Rightarrow> re \<Rightarrow> bool" where
  "needs c (Lit d) = (canon d = canon c)"
| "needs c (Seq a b) = (needs c a \<or> needs c b)"
| "needs c (Alt a b) = (needs c a \<and> needs c b)"
| "needs c (Grp i a) = needs c a"
| "needs c r = False"

text \<open>
  \<open>outcome_ok w e\<close>: under the environment \<open>e\<close> a verification command is configured and
  the child process it starts succeeds.
\<close>

definition outcome_ok :: "world \<Rightarrow> (string \<Rightarrow> string option) \<Rightarrow> bool" where
  "outcome_ok w e = (case selected_command e of None \<Rightarrow> False | Some cmd \<Rightarrow> succeeded (child_exec w cmd))"

section \<open>Example worlds\<close>

text \<open>
  A package \<open>o/r\<close> at version 1.0.0 on macOS whose release has a brotli asset, with a
  test script that passes; and the same world with a failing test script.
\<close>

definition demo_env :: "string \<Rightarrow> string option" where
  "demo_env = [''npm_package_github'' \<mapsto> ''o/r'', ''npm_package_version'' \<mapsto> ''1.0.0'',
               ''npm_package_scripts_test'' \<mapsto> ''node tests/run.js'']"

definition demo_state :: state where
  "demo_state = \<lparr>env = demo_env, trace = []\<rparr>"

definition no_spawn :: spawn_result where
  "no_spawn = \<lparr>status = None, signal = None, stdout = None, stderr = None\<rparr>"

definition demo_url :: string where
  "demo_url = ''https://github.com/o/r/releases/download/1.0.0/darwin-x64-108''"

definition demo_world :: world where
  "demo_world =
     \<lparr>process_platform = ''darwin'', process_arch = ''x64'', process_versions_modules = ''108'',
      process_argv = [''node'', ''install-from-cache.js'', ''--artifact'', ''build/addon.node''],
      spawnSync = (\<lambda>c a. no_spawn),
      path_join = (\<lambda>a b. a @ ''/'' @ b),
      path_dirname = (\<lambda>p. ''build''),
      existsSync = (\<lambda>p. False),
      read_package = (\<lambda>p. None),
      fsp_access = (\<lambda>p. False),
      fsp_mkdir = (\<lambda>p. True),
      fsp_writeFile = (\<lambda>p d. True),
      https_get = (\<lambda>u. if u = demo_url @ ''.br'' then Response 200 None [''AB'', ''C''] True
                        else Response 404 None [] True),
      zlib_brotliDecompress = Some (\<lambda>b. if b = ''ABC'' then Some ''addon'' else None),
      zlib_gunzip = Some (\<lambda>b. None),
      child_exec = (\<lambda>c. Exit (Some 0) None)\<rparr>"

definition failing_tests_world :: world where
  "failing_tests_world =
     demo_world\<lparr>child_exec := (\<lambda>c. if c = ''npm test'' then Exit (Some 1) None else Exit (Some 0) None)\<rparr>"

text \<open>
  Further worlds and states: no version in the environment; a musl system where
  \<open>getconf\<close> fails and \<open>ldd\<close> cannot be started; a server with a chain of three
  redirects; servers that close the connection in the middle of the body of the brotli
  asset, or of the gzip asset when there is no brotli asset; the development flag and
  the marker file; a fallback build that fails.
\<close>

definition unversioned_state :: state where
  "unversioned_state = \<lparr>env = [''npm_package_github'' \<mapsto> ''o/r''], trace = []\<rparr>"

definition musl_without_ldd :: world where
  "musl_without_ldd =
     demo_world\<lparr>process_platform := ''linux'',
       spawnSync := (\<lambda>c a. if c = ''getconf''
                            then \<lparr>status = Some 1, signal = None, stdout = Some [], stderr = Some []\<rparr>
                            else no_spawn)\<rparr>"

definition redirecting_world :: world where
  "redirecting_world =
     demo_world\<lparr>https_get := (\<lambda>u.
        if u = ''https://a/x.br'' then Response 302 (Some ''https://b/x.br'') [] True
        else if u = ''https://b/x.br'' then Response 301 (Some ''https://c/x.br'') [] True
        else if u = ''https://c/x.br'' then Response 307 (Some ''https://d/x.br'') [] True
        else if u = ''https://d/x.br'' then Response 200 None [''AB'', ''C''] True
        else if u = ''https://e/x.br'' then NetError ''ECONNRESET''
        else Response 404 None [] True)\<rparr>"

definition cut_brotli_world :: world where
  "cut_brotli_world =
     demo_world\<lparr>https_get := (\<lambda>u. if u = demo_url @ ''.br'' then Response 200 None [''AB''] False
                                  else Response 404 None [] True)\<rparr>"

definition cut_gzip_world :: world where
  "cut_gzip_world =
     demo_world\<lparr>https_get := (\<lambda>u. if u = demo_url @ ''.gz'' then Response 200 None [''AB''] False
                                  else Response 404 None [] True)\<rparr>"

definition dev_state :: state where
  "dev_state = demo_state\<lparr>env := demo_env(''DEVELOPMENT_SKIP_GETTING_ASSET'' \<mapsto> ''1'')\<rparr>"

definition marker_world :: world where
  "marker_world = demo_world\<lparr>fsp_access := (\<lambda>p. p = ''.development'')\<rparr>"

definition broken_build_world :: world where
  "broken_build_world =
     demo_world\<lparr>child_exec := (\<lambda>c. if c = ''npm test'' then Exit (Some 1) None
                                   else if c = ''npm run rebuild'' then Exit (Some 2) None
                                   else Exit (Some 0) None)\<rparr>"

section \<open>Properties of the patterns\<close>

lemma canon_nonletter:
  assumes "\<not> (97 \<le> (of_char c :: nat) \<and> (of_char c :: nat) \<le> 122)"
      and "\<not> (65 \<le> (of_char c :: nat) \<and> (of_char c :: nat) \<le> 90)"
  shows "canon x = canon c \<longleftrightarrow> x = c"
proof -
  have c: "canon c = c" using assms by (auto simp: canon_def Let_def)
  show ?thesis
  proof (cases "97 \<le> (of_char x :: nat) \<and> (of_char x :: nat) \<le> 122")
    case True
    then have "canon x = char_of ((of_char x :: nat) - 32)" by (auto simp: canon_def Let_def)
    moreover have "(of_char x :: nat) - 32 < 256" using True by linarith
    ultimately have "(of_char (canon x) :: nat) = (of_char x :: nat) - 32"
      by simp
    then have "65 \<le> (of_char (canon x) :: nat) \<and> (of_char (canon x) :: nat) \<le> 90"
      using True by linarith
    then have "canon x \<noteq> c" using assms(2) by metis
    moreover have "x \<noteq> c" using True assms(1) by metis
    ultimately show ?thesis using c by simp
  next
    case False
    then show ?thesis using c by (auto simp: canon_def Let_def)
  qed
qed

lemma canon_colon [simp]: "canon x = canon CHR '':'' \<longleftrightarrow> x = CHR '':''"
  by (rule canon_nonletter) simp_all
lemma canon_slash [simp]: "canon x = canon CHR ''/'' \<longleftrightarrow> x = CHR ''/''"
  by (rule canon_nonletter) simp_all
lemma canon_hash [simp]: "canon x = canon CHR ''#'' \<longleftrightarrow> x = CHR ''#''"
  by (rule canon_nonletter) simp_all


lemma plus_run_split:
  "(p', q', cs') \<in> set (plus_run P p q cs) \<Longrightarrow> \<exists>u. p' = p @ u \<and> q = u @ q'"
proof (induction q arbitrary: p)
  case Nil then show ?case by simp
next
  case (Cons x xs)
  show ?case
  proof (cases "P x")
    case False with Cons.prems show ?thesis by simp
  next
    case True
    with Cons.prems have "(p', q', cs') \<in> set (plus_run P (p @ [x]) xs cs) \<or> (p', q', cs') = (p @ [x], xs, cs)"
      by auto
    then show ?thesis
    proof
      assume "(p', q', cs') \<in> set (plus_run P (p @ [x]) xs cs)"
      from Cons.IH[OF this] obtain u where "p' = (p @ [x]) @ u" "xs = u @ q'" by blast
      then have "p' = p @ (x # u) \<and> x # xs = (x # u) @ q'" by simp
      then show ?thesis by blast
    next
      assume "(p', q', cs') = (p @ [x], xs, cs)"
      then have "p' = p @ [x] \<and> x # xs = [x] @ q'" by simp
      then show ?thesis by blast
    qed
  qed
qed

lemma ms_split:
  "(p', q', cs') \<in> set (ms r (p, q, cs)) \<Longrightarrow> \<exists>u. p' = p @ u \<and> q = u @ q'"
proof (induction r arbitrary: p q cs p' q' cs')
  case (Lit c)
  then show ?case by (cases q) (auto split: if_splits)
next
  case Dot
  then show ?case by (cases q) (auto split: if_splits)
next
  case (PlusNoneOf S)
  then show ?case using plus_run_split by simp
next
  case Bol
  then show ?case by (simp split: if_splits)
next
  case Eol
  then show ?case by (simp split: if_splits)
next
  case WordB
  then show ?case by (simp split: if_splits)
next
  case (Seq a b)
  from Seq.prems obtain p1 q1 c1 where
    a: "(p1, q1, c1) \<in> set (ms a (p, q, cs))" and b: "(p', q', cs') \<in> set (ms b (p1, q1, c1))"
    by auto
  from Seq.IH(1)[OF a] obtain u1 where u1: "p1 = p @ u1" "q = u1 @ q1" by blast
  from Seq.IH(2)[OF b] obtain u2 where u2: "p' = p1 @ u2" "q1 = u2 @ q'" by blast
  from u1 u2 have "p' = p @ (u1 @ u2) \<and> q = (u1 @ u2) @ q'" by simp
  then show ?case by blast
next
  case (Alt a b)
  then show ?case by auto
next
  case (Opt a)
  then show ?case by auto
next
  case (Grp i a)
  from Grp.prems obtain c0 where "(p', q', c0) \<in> set (ms a (p, q, cs))" by auto
  from Grp.IH[OF this] show ?case .
qed

lemma needs_no_match:
  "needs c r \<Longrightarrow> \<forall>x \<in> set q. canon x \<noteq> canon c \<Longrightarrow> ms r (p, q, cs) = []"
proof (induction r arbitrary: p q cs)
  case (Lit d)
  then show ?case by (cases q) auto
next
  case (Seq a b)
  show ?case
  proof (cases "needs c a")
    case True
    from Seq.IH(1)[OF True Seq.prems(2)] show ?thesis by simp
  next
    case False
    with Seq.prems(1) have nb: "needs c b" by simp
    have "ms b s1 = []" if "s1 \<in> set (ms a (p, q, cs))" for s1
    proof -
      obtain p1 q1 c1 where s1: "s1 = (p1, q1, c1)" by (cases s1)
      from that s1 ms_split obtain u where "q = u @ q1" by blast
      with Seq.prems(2) have "\<forall>x \<in> set q1. canon x \<noteq> canon c" by simp
      from Seq.IH(2)[OF nb this] s1 show ?thesis by simp
    qed
    then show ?thesis by simp
  qed
next
  case (Alt a b)
  then show ?case by simp
next
  case (Grp i a)
  then show ?case by simp
qed simp_all

lemma exec_from_needs:
  "needs c r \<Longrightarrow> \<forall>x \<in> set q. canon x \<noteq> canon c \<Longrightarrow> exec_from r p q = None"
proof (induction q arbitrary: p)
  case Nil
  then show ?case by (simp add: needs_no_match)
next
  case (Cons x xs)
  from Cons.prems have "ms r (p, x # xs, Map.empty) = []" by (rule needs_no_match)
  moreover from Cons have "exec_from r (p @ [x]) xs = None" by simp
  ultimately show ?case by simp
qed

lemma needs_colon_1: "needs CHR '':'' parseUrl1"
  by (simp add: parseUrl1_def str_def)

lemma needs_colon_2: "needs CHR '':'' parseUrl2"
  by (simp add: parseUrl2_def str_def)

lemma plus_run_max:
  "a \<noteq> [] \<Longrightarrow> \<forall>x \<in> set a. P x \<Longrightarrow> q = [] \<or> \<not> P (hd q) \<Longrightarrow>
   \<exists>t. plus_run P p (a @ q) cs = (p @ a, q, cs) # t"
proof (induction a arbitrary: p)
  case Nil
  then show ?case by simp
next
  case (Cons x xs)
  show ?case
  proof (cases "xs = []")
    case True
    with Cons.prems show ?thesis by (cases q) auto
  next
    case False
    with Cons.prems Cons.IH[of "p @ [x]"] obtain t where
      "plus_run P (p @ [x]) (xs @ q) cs = ((p @ [x]) @ xs, q, cs) # t" by auto
    with Cons.prems show ?thesis by simp
  qed
qed


lemma ms_parseUrl3:
  assumes "a \<noteq> []" "rest \<noteq> []"
      and "\<forall>x \<in> set a. x \<noteq> CHR '':'' \<and> x \<noteq> CHR ''/''"
      and "\<forall>x \<in> set rest. x \<noteq> CHR ''#''"
  shows "\<exists>t. ms parseUrl3 ([], a @ CHR ''/'' # rest, Map.empty) =
           (a @ CHR ''/'' # rest, [], [1 \<mapsto> a, 2 \<mapsto> rest]) # t"
proof -
  let ?P1 = "\<lambda>x. canon x \<notin> canon ` set '':/''"
  let ?P2 = "\<lambda>x. canon x \<notin> canon ` set ''#''"
  have "\<forall>x \<in> set a. ?P1 x" using assms(3) by simp
  moreover have "CHR ''/'' # rest = [] \<or> \<not> ?P1 (hd (CHR ''/'' # rest))" by simp
  ultimately obtain t1 where t1:
    "plus_run ?P1 [] (a @ CHR ''/'' # rest) Map.empty = ([] @ a, CHR ''/'' # rest, Map.empty) # t1"
    using plus_run_max[OF assms(1), of ?P1 "CHR ''/'' # rest" "[]" Map.empty] by blast
  have "\<forall>x \<in> set rest. ?P2 x" using assms(4) by simp
  then obtain t2 where
    "plus_run ?P2 (a @ ''/'') (rest @ []) [1 \<mapsto> a] = ((a @ ''/'') @ rest, [], [1 \<mapsto> a]) # t2"
    using plus_run_max[OF assms(2), of ?P2 "[]" "a @ ''/''" "[1 \<mapsto> a]"] by blast
  then have t2: "plus_run ?P2 (a @ ''/'') rest [1 \<mapsto> a] = (a @ CHR ''/'' # rest, [], [1 \<mapsto> a]) # t2"
    by simp
  show ?thesis
    using t1 t2 by (simp add: parseUrl3_def)
qed

lemma exec_parseUrl3:
  assumes "a \<noteq> []" "rest \<noteq> []"
      and "\<forall>x \<in> set a. x \<noteq> CHR '':'' \<and> x \<noteq> CHR ''/''"
      and "\<forall>x \<in> set rest. x \<noteq> CHR ''#''"
  shows "exec parseUrl3 (a @ CHR ''/'' # rest) =
           Some [1 \<mapsto> a, 2 \<mapsto> rest, 0 \<mapsto> a @ CHR ''/'' # rest]"
proof -
  from ms_parseUrl3[OF assms] obtain t where
    t: "ms parseUrl3 ([], a @ CHR ''/'' # rest, Map.empty) =
           (a @ CHR ''/'' # rest, [], [1 \<mapsto> a, 2 \<mapsto> rest]) # t" by blast
  obtain x xs where "a @ CHR ''/'' # rest = x # xs" using assms(1) by (cases a) auto
  with t show ?thesis by (simp add: exec_def)
qed

text \<open>
  Claim C10.  In the bare \<open>owner/name\<close> shorthand the name may contain further slashes:
  for an input \<open>a/b/c\<close> without \<open>:\<close> or \<open>#\<close>, whose first segment \<open>a\<close> is not empty and
  has no \<open>/\<close>, \<open>getRepo\<close> yields the owner \<open>a\<close> and the name \<open>b/c\<close>; it neither rejects
  the input nor cuts the name at the second slash.
\<close>

theorem getRepo_shorthand_name_keeps_slashes:
  assumes "a \<noteq> []"
      and "CHR ''/'' \<notin> set a"
      and "CHR '':'' \<notin> set (a @ ''/'' @ b @ ''/'' @ c)"
      and "CHR ''#'' \<notin> set (a @ ''/'' @ b @ ''/'' @ c)"
  shows "map_option (\<lambda>result. (owner result, name result)) (getRepo (Some (a @ ''/'' @ b @ ''/'' @ c)))
           = Some (Some a, Some (b @ ''/'' @ c))"
proof -
  let ?u = "a @ ''/'' @ b @ ''/'' @ c"
  have nc: "\<forall>x \<in> set ?u. canon x \<noteq> canon CHR '':''" using assms(3) by auto
  have e1: "exec parseUrl1 ?u = None"
    unfolding exec_def using needs_colon_1 nc by (rule exec_from_needs)
  have e2: "exec parseUrl2 ?u = None"
    unfolding exec_def using needs_colon_2 nc by (rule exec_from_needs)
  have "exec parseUrl3 (a @ CHR ''/'' # (b @ ''/'' @ c)) =
          Some [1 \<mapsto> a, 2 \<mapsto> b @ ''/'' @ c, 0 \<mapsto> a @ CHR ''/'' # (b @ ''/'' @ c)]"
    using assms by (intro exec_parseUrl3) auto
  then have e3: "exec parseUrl3 ?u = Some [1 \<mapsto> a, 2 \<mapsto> b @ ''/'' @ c, 0 \<mapsto> ?u]" by simp
  have "?u \<noteq> []" using assms(1) by simp
  then show ?thesis
    using e1 e2 e3 by (simp add: getRepo_def parseUrl_def owner_def name_def)
qed

theorem getRepo_shorthand_name_keeps_slashes_witness:
  "map_option (\<lambda>result. (owner result, name result)) (getRepo (Some ''a/b/c''))
     = Some (Some ''a'', Some ''b/c'')"
  using getRepo_shorthand_name_keeps_slashes [of "''a''" "''b''" "''c''"] by simp

text \<open>
  Claim C6.  \<open>getRepo\<close> maps each of \<open>https://github.com/o/r\<close>,
  \<open>git+ssh://github.com/o/r.git\<close>, \<open>github:o/r\<close> and \<open>o/r\<close> to the owner \<open>o\<close> and the name
  \<open>r\<close>.  The three patterns are tried in their fixed order and the first that matches
  gives the result; an absent or empty input, and an input that no pattern matches,
  give \<open>null\<close> and no error.
\<close>

theorem getRepo_reference_shapes:
  "getRepo None = None \<and> getRepo (Some []) = None \<and>
   (\<forall>url. getRepo (Some url) =
      (if url = [] then None
       else case exec parseUrl1 url of
              Some result \<Rightarrow> Some result
            | None \<Rightarrow> (case exec parseUrl2 url of
                         Some result \<Rightarrow> Some result
                       | None \<Rightarrow> exec parseUrl3 url))) \<and>
   map_option (\<lambda>result. (owner result, name result)) (getRepo (Some ''https://github.com/o/r'')) =
     Some (Some ''o'', Some ''r'') \<and>
   map_option (\<lambda>result. (owner result, name result)) (getRepo (Some ''git+ssh://github.com/o/r.git'')) =
     Some (Some ''o'', Some ''r'') \<and>
   map_option (\<lambda>result. (owner result, name result)) (getRepo (Some ''github:o/r'')) =
     Some (Some ''o'', Some ''r'') \<and>
   map_option (\<lambda>result. (owner result, name result)) (getRepo (Some ''o/r'')) =
     Some (Some ''o'', Some ''r'')"
proof -
  have 1: "map_option (\<lambda>result. (owner result, name result)) (getRepo (Some ''https://github.com/o/r'')) =
     Some (Some ''o'', Some ''r'')" by code_simp
  have 2: "map_option (\<lambda>result. (owner result, name result)) (getRepo (Some ''git+ssh://github.com/o/r.git'')) =
     Some (Some ''o'', Some ''r'')" by code_simp
  have 3: "map_option (\<lambda>result. (owner result, name result)) (getRepo (Some ''github:o/r'')) =
     Some (Some ''o'', Some ''r'')" by code_simp
  have 4: "map_option (\<lambda>result. (owner result, name result)) (getRepo (Some ''o/r'')) =
     Some (Some ''o'', Some ''r'')" by code_simp
  have 5: "getRepo (Some url) =
      (if url = [] then None
       else case exec parseUrl1 url of
              Some result \<Rightarrow> Some result
            | None \<Rightarrow> (case exec parseUrl2 url of
                         Some result \<Rightarrow> Some result
                       | None \<Rightarrow> exec parseUrl3 url))" for url
    by (simp add: getRepo_def parseUrl_def split: option.splits)
  have 6: "getRepo None = None \<and> getRepo (Some []) = None" by (simp add: getRepo_def)
  from 1 2 3 4 5 6 show ?thesis by blast
qed

text \<open>
  In the URL form the name is \<open>[^/.]+\<close> and must be followed by \<open>/\<close>, by \<open>.git\<close> at a
  word boundary or by the end: a name with another dot is not matched, and the other
  two patterns do not accept the colon of the scheme.
\<close>

lemma getRepo_url_name_with_dot: "getRepo (Some ''https://github.com/o/r.js'') = None"
  by code_simp

section \<open>The asset URL\<close>

text \<open>
  Claim C2, as stated, fails: with a repository reference but no version in the
  environment \<open>getAssetUrlPrefix\<close> does not return \<open>null\<close>; it builds a URL whose version
  segment is the text \<open>undefined\<close>.
\<close>

theorem getAssetUrlPrefix_ignores_missing_version_counterexample:
  "env unversioned_state ''npm_package_version'' = None \<and>
   getAssetUrlPrefix demo_world ''darwin'' unversioned_state =
     Some ''https://github.com/o/r/releases/download/undefined/darwin-x64-108''"
  by code_simp

text \<open>
  Claim C2, amended.  \<open>getAssetUrlPrefix\<close> returns \<open>null\<close> exactly when \<open>getRepo\<close> finds no
  repository in the package's \<open>github\<close> field or, failing that, in the repository URL of
  a repository of type \<open>git\<close>.  Otherwise it returns the canonical URL
  \<open>{host}/{owner}/{name}/releases/download/{version}/{prefix}{tag}-{arch}-{abi}{suffix}\<close>,
  where the host is the \<open>--host\<close> parameter if not empty, else the value of the named
  environment variable if not empty, else \<open>https://github.com\<close>, and the version is the
  text of \<open>npm_package_version\<close>, which is not checked.
\<close>

theorem getAssetUrlPrefix_canonical_url:
  "getAssetUrlPrefix w platform s =
     (case getRepo (if truthy (env s ''npm_package_github'') then env s ''npm_package_github''
                    else if env s ''npm_package_repository_type'' = Some ''git''
                         then env s ''npm_package_repository_url'' else None) of
        None \<Rightarrow> None
      | Some result \<Rightarrow>
          Some (canonical_url
                  \<lparr>ref_owner = js_str (owner result), ref_name = js_str (name result)\<rparr>
                  \<lparr>request_host = resolve_host (mirrorHost w) (env s (mirrorEnvVar w)),
                   request_version = js_str (env s ''npm_package_version''),
                   request_prefix = prefix w, platform_tag = platform,
                   request_arch = process_arch w, abi_version = process_versions_modules w,
                   request_suffix = suffix w\<rparr>))"
  by (auto simp: getAssetUrlPrefix_def canonical_url_def resolve_host_def owner_def name_def
        truthy_def js_str_def Let_def split: option.splits)

section \<open>The platform tag\<close>

text \<open>
  Claim C7 says that \<open>getPlatform\<close> never raises.  On Linux, when \<open>getconf\<close> exits with
  status 1 and \<open>ldd\<close> cannot be started, \<open>spawnSync\<close> reports neither status nor signal
  and \<open>null\<close> for both streams; \<open>!result.status\<close> holds, \<open>result.stdout.toString()\<close> raises
  a \<open>TypeError\<close>, and the script ends before \<open>main\<close> starts and before any build.
\<close>

theorem getPlatform_raises_when_ldd_cannot_start:
  "getPlatform musl_without_ldd = Inl TypeError \<and>
   map_option (\<lambda>(r, s). (r, trace s)) (script musl_without_ldd demo_state) = Some (Inl TypeError, [])"
  by code_simp

text \<open>
  What \<open>getPlatform\<close> returns on the other probe outcomes: the platform itself outside
  Linux, \<open>linux\<close> when the first probe has neither a failing status nor a signal or when
  the second probe ends by a signal, and \<open>linux-musl\<close> when the second probe exits with
  status 0 and \<open>musl\<close> in its standard output, or with status 1 and \<open>musl\<close> in its
  standard error.
\<close>

lemma getPlatform_tags:
  "process_platform w \<noteq> ''linux'' \<Longrightarrow> getPlatform w = Inr (process_platform w)"
  "process_platform w = ''linux'' \<Longrightarrow>
   \<not> num_truthy (status (spawnSync w ''getconf'' [''GNU_LIBC_VERSION''])) \<Longrightarrow>
   \<not> truthy (signal (spawnSync w ''getconf'' [''GNU_LIBC_VERSION''])) \<Longrightarrow> getPlatform w = Inr ''linux''"
  "process_platform w = ''linux'' \<Longrightarrow>
   num_truthy (status (spawnSync w ''getconf'' [''GNU_LIBC_VERSION''])) \<or>
   truthy (signal (spawnSync w ''getconf'' [''GNU_LIBC_VERSION''])) \<Longrightarrow>
   truthy (signal (spawnSync w ''ldd'' [''--version''])) \<Longrightarrow> getPlatform w = Inr ''linux''"
  "process_platform w = ''linux'' \<Longrightarrow>
   num_truthy (status (spawnSync w ''getconf'' [''GNU_LIBC_VERSION''])) \<or>
   truthy (signal (spawnSync w ''getconf'' [''GNU_LIBC_VERSION''])) \<Longrightarrow>
   \<not> truthy (signal (spawnSync w ''ldd'' [''--version''])) \<Longrightarrow>
   status (spawnSync w ''ldd'' [''--version'']) = Some 0 \<Longrightarrow>
   stdout (spawnSync w ''ldd'' [''--version'']) = Some out \<Longrightarrow> 0 \<le> indexOf out ''musl'' \<Longrightarrow>
   getPlatform w = Inr ''linux-musl''"
  "process_platform w = ''linux'' \<Longrightarrow>
   num_truthy (status (spawnSync w ''getconf'' [''GNU_LIBC_VERSION''])) \<or>
   truthy (signal (spawnSync w ''getconf'' [''GNU_LIBC_VERSION''])) \<Longrightarrow>
   \<not> truthy (signal (spawnSync w ''ldd'' [''--version''])) \<Longrightarrow>
   status (spawnSync w ''ldd'' [''--version'']) = Some 1 \<Longrightarrow>
   stderr (spawnSync w ''ldd'' [''--version'']) = Some err \<Longrightarrow> 0 \<le> indexOf err ''musl'' \<Longrightarrow>
   getPlatform w = Inr ''linux-musl''"
  by (auto simp: getPlatform_def Let_def mentions_musl_def num_truthy_def split: sum.splits bool.splits)

section \<open>Properties of \<open>get\<close>\<close>

lemma get_NetError:
  "https_get w u = NetError e \<Longrightarrow> get w u s = Some (Inl (Transport e), emit (Request u) s)"
  by (subst get.simps) simp

lemma get_redirect:
  "redirects w u l \<Longrightarrow> get w u s = get w l (emit (Request u) s)"
  by (subst get.simps) (auto simp: redirects_def truthy_def js_str_def split: response.splits)

lemma get_status:
  "https_get w u = Response c loc chunks ended \<Longrightarrow> \<not> (300 \<le> c \<and> c < 400) \<Longrightarrow> c \<noteq> 200 \<Longrightarrow>
   get w u s = Some (Inl (HttpStatus c u), emit (Request u) s)"
  by (subst get.simps) auto

lemma get_ok:
  "https_get w u = Response 200 loc chunks True \<Longrightarrow>
   get w u s = Some (Inr (foldl on_data None chunks), emit (Request u) s)"
  by (subst get.simps) auto

lemma get_cut:
  "https_get w u = Response 200 loc chunks False \<Longrightarrow> get w u s = None"
  by (subst get.simps) auto

lemma get_follows:
  "follows w u ls \<Longrightarrow>
   get w u s = get w (last (u # ls)) (foldl (\<lambda>s x. emit (Request x) s) s (butlast (u # ls)))"
proof (induction ls arbitrary: u s)
  case Nil
  then show ?case by simp
next
  case (Cons l ls)
  from Cons.prems have r: "redirects w u l" and f: "follows w l ls" by simp_all
  have "get w u s = get w l (emit (Request u) s)" by (rule get_redirect[OF r])
  also have "\<dots> = get w (last (l # ls)) (foldl (\<lambda>s x. emit (Request x) s) (emit (Request u) s) (butlast (l # ls)))"
    by (rule Cons.IH[OF f])
  also have "\<dots> = get w (last (u # l # ls)) (foldl (\<lambda>s x. emit (Request x) s) s (butlast (u # l # ls)))"
    by simp
  finally show ?case .
qed

lemma get_shape:
  "get w u s = Some y \<Longrightarrow>
   \<exists>us. us \<noteq> [] \<and> snd y = s\<lparr>trace := trace s @ map Request us\<rparr> \<and>
        (\<forall>t. get w u t = Some (fst y, t\<lparr>trace := trace t @ map Request us\<rparr>))"
proof (induction w u s y rule: get.raw_induct[rotated 1, consumes 1])
  case (1 get' w u s y)
  show ?case
  proof (cases "https_get w u")
    case (NetError e)
    with 1(2) have "y = (Inl (Transport e), emit (Request u) s)" by simp
    then have "[u] \<noteq> [] \<and> snd y = s\<lparr>trace := trace s @ map Request [u]\<rparr> \<and>
        (\<forall>t. get w u t = Some (fst y, t\<lparr>trace := trace t @ map Request [u]\<rparr>))"
      using get_NetError[OF NetError] by (simp add: emit_def)
    then show ?thesis by blast
  next
    case (Response c loc chunks ended)
    show ?thesis
    proof (cases "300 \<le> c \<and> c < 400 \<and> truthy loc")
      case True
      with 1(2) Response have "get' w (js_str loc) (emit (Request u) s) = Some y" by simp
      from 1(1)[OF this] obtain us where us: "us \<noteq> []"
        "snd y = (emit (Request u) s)\<lparr>trace := trace (emit (Request u) s) @ map Request us\<rparr>"
        "\<forall>t. get w (js_str loc) t = Some (fst y, t\<lparr>trace := trace t @ map Request us\<rparr>)" by blast
      have r: "redirects w u (js_str loc)"
        using True Response by (auto simp: redirects_def truthy_def js_str_def split: option.splits)
      have "u # us \<noteq> [] \<and> snd y = s\<lparr>trace := trace s @ map Request (u # us)\<rparr> \<and>
        (\<forall>t. get w u t = Some (fst y, t\<lparr>trace := trace t @ map Request (u # us)\<rparr>))"
        using us get_redirect[OF r] by (simp add: emit_def)
      then show ?thesis by blast
    next
      case False
      with 1(2) Response have y: "y = (if c \<noteq> 200 then Inl (HttpStatus c u) else Inr (foldl on_data None chunks), emit (Request u) s)"
        and e: "c = 200 \<longrightarrow> ended"
        by (auto split: if_splits)
      have "\<forall>t. get w u t = Some (fst y, emit (Request u) t)"
        using False Response y e by (subst get.simps) auto
      then have "[u] \<noteq> [] \<and> snd y = s\<lparr>trace := trace s @ map Request [u]\<rparr> \<and>
        (\<forall>t. get w u t = Some (fst y, t\<lparr>trace := trace t @ map Request [u]\<rparr>))"
        using y by (simp add: emit_def)
      then show ?thesis by blast
    qed
  qed
qed

lemma get_result_state_free:
  "map_option fst (get w u s) = map_option fst (get w u t)"
proof (cases "get w u s")
  case None
  show ?thesis
  proof (cases "get w u t")
    case None': None
    with None show ?thesis by simp
  next
    case (Some y)
    from get_shape[OF this] have "get w u s \<noteq> None" by auto
    with None show ?thesis by simp
  qed
next
  case (Some y)
  from get_shape[OF this] obtain us where "get w u t = Some (fst y, t\<lparr>trace := trace t @ map Request us\<rparr>)"
    by blast
  with Some show ?thesis by simp
qed

text \<open>
  What holds of \<open>get\<close>.  It answers a response with a status in 300..399 and a
  \<open>Location\<close> header by a fresh \<open>get\<close> of that location, so along a chain of redirects
  of any length it gives what a \<open>get\<close> of the last URL gives.  A status outside 300..399
  other than 200 rejects with an error that carries the status code and the URL, and
  an \<open>error\<close> event of the request rejects with that error.
\<close>

lemma get_follows_redirects:
  "(redirects w u l \<longrightarrow> get w u s = get w l (emit (Request u) s)) \<and>
   (follows w u ls \<longrightarrow>
      map_option fst (get w u s) = map_option fst (get w (last (u # ls)) s) \<and>
      get w u s = get w (last (u # ls)) (foldl (\<lambda>s x. emit (Request x) s) s (butlast (u # ls)))) \<and>
   (https_get w u = Response c loc chunks ended \<and> \<not> (300 \<le> c \<and> c < 400) \<and> c \<noteq> 200 \<longrightarrow>
      get w u s = Some (Inl (HttpStatus c u), emit (Request u) s)) \<and>
   (https_get w u = NetError e \<longrightarrow> get w u s = Some (Inl (Transport e), emit (Request u) s))"
proof -
  have "map_option fst (get w u s) = map_option fst (get w (last (u # ls)) s)" if f: "follows w u ls"
  proof -
    have "map_option fst (get w u s) =
          map_option fst (get w (last (u # ls)) (foldl (\<lambda>s x. emit (Request x) s) s (butlast (u # ls))))"
      by (simp only: get_follows[OF f])
    also have "\<dots> = map_option fst (get w (last (u # ls)) s)"
      by (rule get_result_state_free)
    finally show ?thesis .
  qed
  then show ?thesis
    using get_redirect[of w u l s] get_follows[of w u ls s] get_status[of w u c loc chunks ended s]
      get_NetError[of w u e s]
    by blast
qed

lemma get_follows_redirects_example:
  "follows redirecting_world ''https://a/x.br'' [''https://b/x.br'', ''https://c/x.br'', ''https://d/x.br''] \<and>
   map_option fst (get redirecting_world ''https://a/x.br'' demo_state) =
     map_option fst (get redirecting_world ''https://d/x.br'' demo_state) \<and>
   map_option fst (get redirecting_world ''https://d/x.br'' demo_state) = Some (Inr (Some ''ABC'')) \<and>
   https_get redirecting_world ''https://z/x.br'' = Response 404 None [] True \<and>
   get redirecting_world ''https://z/x.br'' demo_state =
     Some (Inl (HttpStatus 404 ''https://z/x.br''), emit (Request ''https://z/x.br'') demo_state) \<and>
   https_get redirecting_world ''https://e/x.br'' = NetError ''ECONNRESET'' \<and>
   get redirecting_world ''https://e/x.br'' demo_state =
     Some (Inl (Transport ''ECONNRESET''), emit (Request ''https://e/x.br'') demo_state)"
proof -
  let ?ls = "[''https://b/x.br'', ''https://c/x.br'', ''https://d/x.br'']"
  have f: "follows redirecting_world ''https://a/x.br'' ?ls" by code_simp
  have d: "map_option fst (get redirecting_world ''https://d/x.br'' demo_state) = Some (Inr (Some ''ABC''))"
    by code_simp
  have z: "https_get redirecting_world ''https://z/x.br'' = Response 404 None [] True" by code_simp
  have e: "https_get redirecting_world ''https://e/x.br'' = NetError ''ECONNRESET''" by code_simp
  have "map_option fst (get redirecting_world ''https://a/x.br'' demo_state) =
        map_option fst (get redirecting_world (last (''https://a/x.br'' # ?ls)) demo_state)"
    using get_follows_redirects[of redirecting_world "''https://a/x.br''" _ demo_state ?ls] f by blast
  then have a: "map_option fst (get redirecting_world ''https://a/x.br'' demo_state) =
     map_option fst (get redirecting_world ''https://d/x.br'' demo_state)" by simp
  have gz: "get redirecting_world ''https://z/x.br'' demo_state =
     Some (Inl (HttpStatus 404 ''https://z/x.br''), emit (Request ''https://z/x.br'') demo_state)"
    using get_follows_redirects[of redirecting_world "''https://z/x.br''" _ demo_state _ 404 None "[]" True] z
    by simp
  have ge: "get redirecting_world ''https://e/x.br'' demo_state =
     Some (Inl (Transport ''ECONNRESET''), emit (Request ''https://e/x.br'') demo_state)"
    using get_follows_redirects[of redirecting_world "''https://e/x.br''" _ demo_state _ _ _ _ _ "''ECONNRESET''"] e
    by simp
  show ?thesis using f a d z gz e ge by (intro conjI) assumption+
qed

text \<open>
  Claim C5 says that every failure of the transport makes \<open>get\<close> fail with the
  transport's error.  When the server answers with status 200 and then closes the
  connection in the middle of the body, the response never emits \<open>end\<close> and the request
  emits no \<open>error\<close>; \<open>get\<close> listens to nothing else, so its promise neither rejects nor
  resolves.
\<close>

theorem get_never_settles_when_body_is_cut:
  "https_get cut_brotli_world (demo_url @ ''.br'') = Response 200 None [''AB''] False \<and>
   get cut_brotli_world (demo_url @ ''.br'') demo_state = None"
proof -
  have r: "https_get cut_brotli_world (demo_url @ ''.br'') = Response 200 None [''AB''] False"
    by (simp add: cut_brotli_world_def)
  from r get_cut[OF r] show ?thesis by simp
qed

section \<open>Properties of the stages of \<open>main\<close>\<close>

lemma trace_emit [simp]: "trace (emit e s) = trace s @ [e]" "env (emit e s) = env s"
  by (simp_all add: emit_def)

lemma trace_log [simp]: "trace (log m s) = trace s @ [Log m]" "env (log m s) = env s"
  by (simp_all add: log_def)

lemma rejection_None: "rejection out = None \<longleftrightarrow> succeeded out"
  by (auto simp: rejection_def succeeded_def num_truthy_def split: child_outcome.splits option.splits)

lemma run_eq:
  "run w cmd suppress s =
     ((case rejection (child_exec w cmd) of None \<Rightarrow> Inr 0 | Some e \<Rightarrow> Inl e),
      emit (Exec cmd (\<not> suppress \<or> truthy (env s ''DEVELOPMENT_SHOW_VERIFICATION_RESULTS''))) s)"
  by (simp add: run_def rejection_def Let_def split: child_outcome.splits option.splits)

lemma isVerified_eq:
  "isVerified w s =
     (case selected_command (env s) of
        None \<Rightarrow> (False, log ''No verify-build nor test scripts were found -- no way to verify the build automatically.'' s)
      | Some cmd \<Rightarrow>
          if succeeded (child_exec w cmd)
          then (True, emit (Exec cmd (truthy (env s ''DEVELOPMENT_SHOW_VERIFICATION_RESULTS''))) s)
          else (False, log ''The verification has failed: building from sources ...''
                        (emit (Exec cmd (truthy (env s ''DEVELOPMENT_SHOW_VERIFICATION_RESULTS''))) s)))"
  using rejection_None[of "child_exec w ''npm run verify-build''"] rejection_None[of "child_exec w ''npm test''"]
  by (auto simp: isVerified_def selected_command_def verify_with_def run_eq split: option.splits)

lemma drop_suffix: "drop (length (a @ b) - length b) (a @ b) = b"
  by simp

lemma trying_iff:
  assumes "length ext = length ext'"
  shows "trying ext (Log (trying_message up ext')) = (ext = ext')"
proof -
  let ?m = "''Trying '' @ up @ ext' @ '' ...''"
  have m: "?m = (''Trying '' @ up) @ (ext' @ '' ...'')" by simp
  have l: "length (ext @ '' ...'') = length (ext' @ '' ...'')" using assms by simp
  have "drop (length ?m - length (ext @ '' ...'')) ?m = ext' @ '' ...''"
    unfolding l by (subst (1 2) m) (rule drop_suffix)
  moreover have "take 7 ?m = ''Trying ''" by simp
  ultimately have "trying ext (Log ?m) = (ext' @ '' ...'' = ext @ '' ...'')"
    unfolding trying_def by (simp only: event.case) simp
  then show ?thesis unfolding trying_message_def by auto
qed

lemma trying_message [simp]:
  "trying ''.br'' (Log (trying_message up ''.br''))"
  "trying ''.gz'' (Log (trying_message up ''.gz''))"
  "\<not> trying ''.gz'' (Log (trying_message up ''.br''))"
  "\<not> trying ''.br'' (Log (trying_message up ''.gz''))"
  by (simp_all add: trying_iff)

lemma not_trying [simp]:
  "\<not> trying ext (Request u)" "\<not> trying ext (Mkdir d ok)" "\<not> trying ext (WriteFile p d ok)"
  "\<not> trying ext (Exec c f)" "\<not> trying ext (Log (writing_message p))"
  "\<not> trying ext (Log ''Done.'')" "\<not> trying ext (Log ''Building locally ...'')"
  "\<not> trying ext (Log ''The verification has failed: building from sources ...'')"
  "\<not> trying ext (Log ''No verify-build nor test scripts were found -- no way to verify the build automatically.'')"
  "\<not> trying ext (Log ''Could not retrieve and parse package.json.'')"
  "\<not> trying ext (Log ''No artifact path was specified with --artifact.'')"
  "\<not> trying ext (Log ''Development flag was detected.'')"
  "\<not> trying ext (Log ''No github repository was identified.'')"
  by (simp_all add: trying_def writing_message_def)

lemma builds_simps [simp]:
  "builds [] = 0" "builds (a @ b) = builds a + builds b" "builds (map Request us) = 0"
  "builds (Log m # tr) = builds tr" "builds (Request u # tr) = builds tr"
  "builds (Mkdir d ok # tr) = builds tr" "builds (WriteFile p x ok # tr) = builds tr"
  "builds (Exec c f # tr) = (if c = ''npm run rebuild'' then Suc (builds tr) else builds tr)"
  by (simp_all add: builds_def is_build_def filter_empty_conv)

lemma requests_simps [simp]:
  "requests [] = []" "requests (a @ b) = requests a @ requests b"
  "requests (map Request us) = map Request us"
  "requests (Log m # tr) = requests tr" "requests (Request u # tr) = Request u # requests tr"
  "requests (Mkdir d ok # tr) = requests tr" "requests (WriteFile p x ok # tr) = requests tr"
  "requests (Exec c f # tr) = requests tr"
  by (simp_all add: requests_def is_request_def filter_id_conv)

lemma verified_simps [simp]:
  "verified w [] = False" "verified w (a @ b) = (verified w a \<or> verified w b)"
  "verified w (map Request us) = False"
  "verified w (Log m # tr) = verified w tr" "verified w (Request u # tr) = verified w tr"
  "verified w (Mkdir d ok # tr) = verified w tr" "verified w (WriteFile p x ok # tr) = verified w tr"
  "verified w (Exec c f # tr) =
     ((c = ''npm run verify-build'' \<or> c = ''npm test'') \<and> succeeded (child_exec w c) \<or> verified w tr)"
  by (auto simp: verified_def is_verdict_def list_ex_iff)

lemma wrote_simps [simp]:
  "wrote p [] = False" "wrote p (a @ b) = (wrote p a \<or> wrote p b)"
  "wrote p (map Request us) = False"
  "wrote p (Log m # tr) = wrote p tr" "wrote p (Request u # tr) = wrote p tr"
  "wrote p (Mkdir d ok # tr) = wrote p tr"
  "wrote p (WriteFile q x ok # tr) = (q = p \<and> ok \<or> wrote p tr)"
  "wrote p (Exec c f # tr) = wrote p tr"
  by (auto simp: wrote_def is_written_def list_ex_iff)

lemma attempts_simps [simp]:
  "attempts [] = []" "attempts (a @ b) = attempts a @ attempts b"
  "attempts (map Request us) = []"
  "attempts (Request u # tr) = attempts tr"
  "attempts (Mkdir d ok # tr) = attempts tr" "attempts (WriteFile p x ok # tr) = attempts tr"
  "attempts (Exec c f # tr) = attempts tr"
  "attempts (Log m # tr) =
     (if trying ''.br'' (Log m) then [''.br''] else if trying ''.gz'' (Log m) then [''.gz''] else []) @ attempts tr"
  by (simp_all add: attempts_def)

lemma after_write_Requests [simp]: "after_write p (map Request us) = []"
  by (induction us) (simp_all add: after_write_def is_written_def)

lemma after_write_simps [simp]:
  "after_write p [] = []"
  "after_write p (Log m # tr) = after_write p tr" "after_write p (Request u # tr) = after_write p tr"
  "after_write p (Mkdir d ok # tr) = after_write p tr"
  "after_write p (WriteFile q x ok # tr) = (if q = p \<and> ok then tr else after_write p tr)"
  "after_write p (Exec c f # tr) = after_write p tr"
  by (simp_all add: after_write_def is_written_def)

lemma after_write_append [simp]:
  "after_write p (a @ b) = (if wrote p a then after_write p a @ b else after_write p b)"
  by (induction a) (auto simp: after_write_def wrote_def)

lemma write_file_delta:
  assumes "write_file w p d s = (c, s')"
  shows "env s' = env s \<and>
         (\<exists>new. trace s' = trace s @ new \<and> builds new = 0 \<and> \<not> verified w new \<and>
                wrote p new = c \<and> attempts new = [] \<and> requests new = [] \<and> after_write p new = [])"
proof (cases "fsp_mkdir w (path_dirname w p)")
  case False
  with assms have "c = False" "s' = emit (Mkdir (path_dirname w p) False) s"
    by (auto simp: write_file_def Let_def)
  then have "env s' = env s \<and> trace s' = trace s @ [Mkdir (path_dirname w p) False]" by simp
  moreover have "builds [Mkdir (path_dirname w p) False] = 0 \<and> \<not> verified w [Mkdir (path_dirname w p) False] \<and>
    wrote p [Mkdir (path_dirname w p) False] = False \<and> attempts [Mkdir (path_dirname w p) False] = [] \<and>
    requests [Mkdir (path_dirname w p) False] = [] \<and> after_write p [Mkdir (path_dirname w p) False] = []"
    by simp
  ultimately show ?thesis using \<open>c = False\<close> by blast
next
  case True
  let ?new = "[Mkdir (path_dirname w p) True, WriteFile p d c]"
  from True assms have c: "c = fsp_writeFile w p d"
    and s': "s' = emit (WriteFile p d c) (emit (Mkdir (path_dirname w p) True) s)"
    by (auto simp: write_file_def Let_def)
  from s' have "env s' = env s \<and> trace s' = trace s @ ?new" by simp
  moreover have "builds ?new = 0 \<and> \<not> verified w ?new \<and> wrote p ?new = c \<and> attempts ?new = [] \<and>
    requests ?new = [] \<and> after_write p ?new = []"
    by simp
  ultimately show ?thesis by blast
qed

lemma attempt_delta:
  assumes "attempt w ext dec up s = Some (c, s')" and "ext = ''.br'' \<or> ext = ''.gz''"
  shows "env s' = env s \<and>
         (\<exists>new. trace s' = trace s @ new \<and> builds new = 0 \<and> \<not> verified w new \<and>
                wrote (artifactPath w) new = c \<and> attempts new = [ext] \<and>
                after_write (artifactPath w) new = [])"
proof -
  let ?p = "artifactPath w"
  let ?s0 = "log (trying_message up ext) s"
  have t: "attempts [Log (trying_message up ext)] = [ext]" using assms(2) by auto
  from assms(1) obtain r s1 where g: "get w (up @ ext) ?s0 = Some (r, s1)"
    by (auto simp: attempt_def split: option.splits)
  from get_shape[OF g] obtain us where
    s1: "s1 = ?s0\<lparr>trace := trace ?s0 @ map Request us\<rparr>" by auto
  then have s1e: "env s1 = env s" and s1t: "trace s1 = trace s @ Log (trying_message up ext) # map Request us"
    by simp_all
  let ?n1 = "Log (trying_message up ext) # map Request us"
  have n1: "builds ?n1 = 0 \<and> \<not> verified w ?n1 \<and> \<not> wrote ?p ?n1 \<and> attempts ?n1 = [ext] \<and> after_write ?p ?n1 = []"
    using t by simp
  show ?thesis
  proof (cases r)
    case (Inl e)
    with assms(1) g have "c = False" "s' = s1" by (auto simp: attempt_def)
    with s1e s1t n1 show ?thesis by blast
  next
    case (Inr artifact)
    let ?s2 = "log (writing_message ?p) s1"
    show ?thesis
    proof (cases "Option.bind artifact dec")
      case None
      with assms(1) g Inr have cs: "c = False" "s' = ?s2" by (auto simp: attempt_def Let_def)
      let ?new = "?n1 @ [Log (writing_message ?p)]"
      have "env s' = env s \<and> trace s' = trace s @ ?new" using cs s1e s1t by simp
      moreover have "builds ?new = 0 \<and> \<not> verified w ?new \<and> wrote ?p ?new = c \<and> attempts ?new = [ext] \<and>
          after_write ?p ?new = []"
        using n1 cs by simp
      ultimately show ?thesis by blast
    next
      case (Some data)
      with assms(1) g Inr have wf: "write_file w ?p data ?s2 = (c, s')" by (auto simp: attempt_def Let_def)
      from write_file_delta[OF wf] obtain n3 where n3: "env s' = env ?s2" "trace s' = trace ?s2 @ n3"
        "builds n3 = 0" "\<not> verified w n3" "wrote ?p n3 = c" "attempts n3 = []" "after_write ?p n3 = []"
        by blast
      let ?new = "?n1 @ Log (writing_message ?p) # n3"
      have "env s' = env s \<and> trace s' = trace s @ ?new" using n3 s1e s1t by simp
      moreover have "builds ?new = 0 \<and> \<not> verified w ?new \<and> wrote ?p ?new = c \<and> attempts ?new = [ext] \<and>
          after_write ?p ?new = []"
        using n1 n3 by simp
      ultimately show ?thesis by blast
    qed
  qed
qed

lemma attempt_total: "settles w \<Longrightarrow> attempt w ext dec up s \<noteq> None"
  by (auto simp: settles_def attempt_def Let_def split: option.splits sum.splits prod.splits)

lemma download_delta:
  assumes "download w up s = Some (c, s')"
  shows "env s' = env s \<and>
         (\<exists>new. trace s' = trace s @ new \<and> builds new = 0 \<and> \<not> verified w new \<and>
                wrote (artifactPath w) new = c \<and>
                attempts new \<in> {[], [''.br''], [''.gz''], [''.br'', ''.gz'']} \<and>
                after_write (artifactPath w) new = [])"
proof -
  let ?p = "artifactPath w"
  let ?first = "case zlib_brotliDecompress w of None \<Rightarrow> Some (False, s)
                | Some brotliDecompress \<Rightarrow> attempt w ''.br'' brotliDecompress up s"
  from assms obtain c1 s1 where first: "?first = Some (c1, s1)"
    by (auto simp: download_def split: option.splits)
  have "env s1 = env s \<and>
         (\<exists>n1. trace s1 = trace s @ n1 \<and> builds n1 = 0 \<and> \<not> verified w n1 \<and>
                wrote ?p n1 = c1 \<and> attempts n1 \<in> {[], [''.br'']} \<and> after_write ?p n1 = [])"
  proof (cases "zlib_brotliDecompress w")
    case None
    with first have "c1 = False" "s1 = s" by simp_all
    then have "env s1 = env s \<and> trace s1 = trace s @ [] \<and> builds [] = 0 \<and> \<not> verified w [] \<and>
        wrote ?p [] = c1 \<and> attempts [] \<in> {[], [''.br'']} \<and> after_write ?p [] = []" by simp
    then show ?thesis by blast
  next
    case (Some dec)
    with first have "attempt w ''.br'' dec up s = Some (c1, s1)" by simp
    from attempt_delta[OF this] show ?thesis by auto
  qed
  then obtain n1 where n1: "env s1 = env s" "trace s1 = trace s @ n1" "builds n1 = 0" "\<not> verified w n1"
      "wrote ?p n1 = c1" "attempts n1 \<in> {[], [''.br'']}" "after_write ?p n1 = []"
    by blast
  from assms first have second:
    "(case zlib_gunzip w of None \<Rightarrow> Some (c1, s1)
      | Some gunzip \<Rightarrow> if \<not> c1 then attempt w ''.gz'' gunzip up s1 else Some (c1, s1)) = Some (c, s')"
    by (simp add: download_def)
  show ?thesis
  proof (cases "\<exists>gunzip. zlib_gunzip w = Some gunzip \<and> \<not> c1")
    case False
    with second have "c = c1" "s' = s1" by (auto split: option.splits if_splits)
    with n1 show ?thesis by auto
  next
    case True
    then obtain gunzip where gz: "zlib_gunzip w = Some gunzip" and nc: "\<not> c1" by blast
    with second have "attempt w ''.gz'' gunzip up s1 = Some (c, s')" by simp
    from attempt_delta[OF this] obtain n2 where n2: "env s' = env s1" "trace s' = trace s1 @ n2"
      "builds n2 = 0" "\<not> verified w n2" "wrote ?p n2 = c" "attempts n2 = [''.gz'']" "after_write ?p n2 = []"
      by auto
    have "env s' = env s \<and> trace s' = trace s @ (n1 @ n2)" using n1 n2 by simp
    moreover have "builds (n1 @ n2) = 0 \<and> \<not> verified w (n1 @ n2) \<and> wrote ?p (n1 @ n2) = c \<and>
        attempts (n1 @ n2) \<in> {[], [''.br''], [''.gz''], [''.br'', ''.gz'']} \<and> after_write ?p (n1 @ n2) = []"
      using n1 n2 nc by auto
    ultimately show ?thesis by blast
  qed
qed

lemma download_total: "settles w \<Longrightarrow> download w up s \<noteq> None"
  using attempt_total[of w]
  by (auto simp: download_def split: option.splits prod.splits)

lemma isVerified_delta:
  assumes "isVerified w s = (v, s')"
  shows "env s' = env s \<and>
         (\<exists>new. trace s' = trace s @ new \<and> builds new = 0 \<and> requests new = [] \<and> attempts new = [] \<and>
                \<not> wrote p new \<and> verified w new = v \<and>
                v = (case selected_command (env s) of None \<Rightarrow> False | Some cmd \<Rightarrow> succeeded (child_exec w cmd)))"
proof (cases "selected_command (env s)")
  case None
  with assms have "v = False" "s' = log ''No verify-build nor test scripts were found -- no way to verify the build automatically.'' s"
    by (simp_all add: isVerified_eq)
  then have "env s' = env s \<and> trace s' = trace s @ [Log ''No verify-build nor test scripts were found -- no way to verify the build automatically.'']"
    by simp
  moreover have "attempts [Log ''No verify-build nor test scripts were found -- no way to verify the build automatically.''] = []"
    by simp
  ultimately show ?thesis using None \<open>v = False\<close> by (intro conjI exI[of _ "[Log ''No verify-build nor test scripts were found -- no way to verify the build automatically.'']"]) simp_all
next
  case (Some cmd)
  then have cmd: "cmd = ''npm run verify-build'' \<or> cmd = ''npm test''"
    by (auto simp: selected_command_def split: if_splits)
  let ?e = "Exec cmd (truthy (env s ''DEVELOPMENT_SHOW_VERIFICATION_RESULTS''))"
  show ?thesis
  proof (cases "succeeded (child_exec w cmd)")
    case True
    with assms Some have "v = True" "s' = emit ?e s" by (simp_all add: isVerified_eq)
    with Some True cmd show ?thesis
      by (intro conjI exI[of _ "[?e]"]) auto
  next
    case False
    with assms Some have "v = False"
      "s' = log ''The verification has failed: building from sources ...'' (emit ?e s)"
      by (simp_all add: isVerified_eq)
    with Some False cmd show ?thesis
      by (intro conjI exI[of _ "[?e, Log ''The verification has failed: building from sources ...'']"]) auto
  qed
qed

lemma locate_package_json_keeps:
  "trace (locate_package_json w s) = trace s"
  "k \<noteq> ''npm_package_json'' \<Longrightarrow> env (locate_package_json w s) k = env s k"
  by (simp_all add: locate_package_json_def Let_def)

lemma load_package_keeps:
  assumes "load_package w s = Some s'"
  shows "trace s' = trace s"
    and "k \<noteq> ''npm_package_github'' \<Longrightarrow> k \<noteq> ''npm_package_repository_type'' \<Longrightarrow>
         k \<noteq> ''npm_package_repository_url'' \<Longrightarrow> k \<noteq> ''npm_package_version'' \<Longrightarrow>
         k \<noteq> ''npm_package_scripts_verify_build'' \<Longrightarrow> k \<noteq> ''npm_package_scripts_test'' \<Longrightarrow>
         env s' k = env s k"
  using assms by (auto simp: load_package_def split: if_splits option.splits)

lemma after_write_none: "\<not> wrote p tr \<Longrightarrow> after_write p tr = []"
  by (induction tr) (auto simp: after_write_def wrote_def)

lemma checks_delta:
  assumes "checks w pl s = Some (finished, s')"
  shows "\<exists>new. trace s' = trace s @ new \<and> builds new = 0 \<and>
           finished = (wrote (artifactPath w) new \<and> verified w new) \<and>
           attempts new \<in> {[], [''.br''], [''.gz''], [''.br'', ''.gz'']} \<and>
           requests (after_write (artifactPath w) new) = [] \<and>
           attempts (after_write (artifactPath w) new) = [] \<and>
           (wrote (artifactPath w) new \<longrightarrow> verified w new = outcome_ok w (env s'))"
proof -
  let ?p = "artifactPath w"
  let ?s1 = "locate_package_json w s"
  let ?goal = "\<lambda>new. trace s' = trace s @ new \<and> builds new = 0 \<and>
           finished = (wrote ?p new \<and> verified w new) \<and>
           attempts new \<in> {[], [''.br''], [''.gz''], [''.br'', ''.gz'']} \<and>
           requests (after_write ?p new) = [] \<and>
           attempts (after_write ?p new) = [] \<and>
           (wrote ?p new \<longrightarrow> verified w new = outcome_ok w (env s'))"
  have single: "?goal [Log m]" if "finished = False" "trace s' = trace s @ [Log m]" "attempts [Log m] = []" for m
    using that by simp
  show ?thesis
  proof (cases "load_package w ?s1")
    case None
    with assms have "finished = False" "s' = log ''Could not retrieve and parse package.json.'' ?s1"
      by (simp_all add: checks_def)
    then have "?goal [Log ''Could not retrieve and parse package.json.'']"
      by (intro single) (simp_all add: locate_package_json_keeps)
    then show ?thesis by blast
  next
    case (Some s2)
    have t2: "trace s2 = trace s"
      using load_package_keeps(1)[OF Some] by (simp add: locate_package_json_keeps)
    show ?thesis
    proof (cases "?p = []")
      case True
      with assms Some have "finished = False" "s' = log ''No artifact path was specified with --artifact.'' s2"
        by (simp_all add: checks_def)
      then have "?goal [Log ''No artifact path was specified with --artifact.'']"
        using t2 by (intro single) simp_all
      then show ?thesis by blast
    next
      case False
      note path = False
      show ?thesis
      proof (cases "isDev w s2")
        case True
        with assms Some path have "finished = False" "s' = log ''Development flag was detected.'' s2"
          by (simp_all add: checks_def)
        then have "?goal [Log ''Development flag was detected.'']"
          using t2 by (intro single) simp_all
        then show ?thesis by blast
      next
        case False
        note dev = False
        show ?thesis
        proof (cases "\<exists>up. getAssetUrlPrefix w pl s2 = Some up \<and> up \<noteq> []")
          case False
          with assms Some path dev have "finished = False" "s' = log ''No github repository was identified.'' s2"
            by (auto simp: checks_def split: option.splits)
          then have "?goal [Log ''No github repository was identified.'']"
            using t2 by (intro single) simp_all
          then show ?thesis by blast
        next
          case True
          then obtain up where up: "getAssetUrlPrefix w pl s2 = Some up" "up \<noteq> []" by blast
          with assms Some path dev obtain copied s3 where
            dl: "download w up s2 = Some (copied, s3)" and
            rest: "(if copied then (case isVerified w s3 of (True, s'') \<Rightarrow> Some (True, log ''Done.'' s'')
                                   | (False, s'') \<Rightarrow> Some (False, s''))
                    else Some (False, s3)) = Some (finished, s')"
            by (auto simp: checks_def split: option.splits prod.splits)
          from download_delta[OF dl] obtain n1 where n1: "env s3 = env s2" "trace s3 = trace s2 @ n1"
            "builds n1 = 0" "\<not> verified w n1" "wrote ?p n1 = copied"
            "attempts n1 \<in> {[], [''.br''], [''.gz''], [''.br'', ''.gz'']}" "after_write ?p n1 = []"
            by blast
          show ?thesis
          proof (cases copied)
            case False
            with rest have "finished = False" "s' = s3" by simp_all
            with n1 t2 False have "?goal n1" by simp
            then show ?thesis by blast
          next
            case True
            obtain v s4 where iv: "isVerified w s3 = (v, s4)" by (cases "isVerified w s3")
            from isVerified_delta[OF iv, of ?p] obtain n2 where n2: "env s4 = env s3" "trace s4 = trace s3 @ n2"
              "builds n2 = 0" "requests n2 = []" "attempts n2 = []" "\<not> wrote ?p n2" "verified w n2 = v"
              "v = outcome_ok w (env s3)"
              unfolding outcome_ok_def by blast
            show ?thesis
            proof (cases v)
              case True
              with rest iv \<open>copied\<close> have d: "finished = True" "s' = log ''Done.'' s4" by simp_all
              have "?goal (n1 @ n2 @ [Log ''Done.''])"
                using d n1 n2 t2 True \<open>copied\<close> by simp
              then show ?thesis by blast
            next
              case False
              with rest iv \<open>copied\<close> have d: "finished = False" "s' = s4" by simp_all
              have "?goal (n1 @ n2)"
                using d n1 n2 t2 False \<open>copied\<close> by simp
              then show ?thesis by blast
            qed
          qed
        qed
      qed
    qed
  qed
qed

lemma checks_total:
  assumes "settles w"
  shows "checks w pl s \<noteq> None"
proof -
  have d: "download w up t \<noteq> None" for up t using assms by (rule download_total)
  show ?thesis
    by (auto simp: checks_def d split: option.splits prod.splits bool.splits)
qed

lemma main_delta:
  assumes "main w pl s = Some (r, s')"
  shows "\<exists>new. trace s' = trace s @ new \<and>
           builds new = (if wrote (artifactPath w) new \<and> verified w new then 0 else 1) \<and>
           r = (if wrote (artifactPath w) new \<and> verified w new then Inr ()
                else case rejection (child_exec w ''npm run rebuild'') of None \<Rightarrow> Inr () | Some e \<Rightarrow> Inl e) \<and>
           attempts new \<in> {[], [''.br''], [''.gz''], [''.br'', ''.gz'']} \<and>
           requests (after_write (artifactPath w) new) = [] \<and>
           attempts (after_write (artifactPath w) new) = [] \<and>
           (wrote (artifactPath w) new \<longrightarrow> verified w new = outcome_ok w (env s'))"
proof -
  let ?p = "artifactPath w"
  from assms obtain finished s1 where c: "checks w pl s = Some (finished, s1)"
    by (auto simp: main_def split: option.splits)
  from checks_delta[OF c] obtain n1 where n1: "trace s1 = trace s @ n1" "builds n1 = 0"
    "finished = (wrote ?p n1 \<and> verified w n1)"
    "attempts n1 \<in> {[], [''.br''], [''.gz''], [''.br'', ''.gz'']}"
    "requests (after_write ?p n1) = []" "attempts (after_write ?p n1) = []"
    "wrote ?p n1 \<longrightarrow> verified w n1 = outcome_ok w (env s1)"
    by blast
  show ?thesis
  proof (cases finished)
    case True
    with assms c have "r = Inr ()" "s' = s1" by (simp_all add: main_def)
    with n1 True show ?thesis by auto
  next
    case False
    let ?n2 = "[Log ''Building locally ...'', Exec ''npm run rebuild'' True]"
    from assms c False have r: "r = (case rejection (child_exec w ''npm run rebuild'') of None \<Rightarrow> Inr () | Some e \<Rightarrow> Inl e)"
      and s': "s' = emit (Exec ''npm run rebuild'' True) (log ''Building locally ...'' s1)"
      by (auto simp: main_def run_eq split: option.splits)
    have "trace s' = trace s @ (n1 @ ?n2)" "env s' = env s1" using s' n1 by simp_all
    moreover have "builds (n1 @ ?n2) = 1" "wrote ?p (n1 @ ?n2) = wrote ?p n1"
      "verified w (n1 @ ?n2) = verified w n1" "attempts (n1 @ ?n2) = attempts n1"
      "requests (after_write ?p (n1 @ ?n2)) = []" "attempts (after_write ?p (n1 @ ?n2)) = []"
      using n1 by simp_all
    ultimately show ?thesis using n1 r False
      by (intro exI[of _ "n1 @ ?n2"]) (simp only: , simp)
  qed
qed

lemma main_total: "settles w \<Longrightarrow> main w pl s \<noteq> None"
  using checks_total[of w pl s]
  by (auto simp: main_def run_eq split: option.splits prod.splits bool.splits)

section \<open>The claims about \<open>main\<close>\<close>

lemma settles_no_redirect:
  assumes "\<And>u. case https_get w u of NetError e \<Rightarrow> True
                 | Response c loc chunks ended \<Rightarrow> \<not> (300 \<le> c \<and> c < 400) \<and> (c = 200 \<longrightarrow> ended)"
  shows "settles w"
  unfolding settles_def
proof (intro allI)
  fix u s
  from assms[of u] show "get w u s \<noteq> None"
    by (subst get.simps) (auto split: response.splits)
qed

lemma settles_demo_world: "settles demo_world"
  by (rule settles_no_redirect) (simp add: demo_world_def)

lemma settles_failing_tests_world: "settles failing_tests_world"
  by (rule settles_no_redirect) (simp add: failing_tests_world_def demo_world_def)

lemma settles_broken_build_world: "settles broken_build_world"
  by (rule settles_no_redirect) (simp add: broken_build_world_def demo_world_def)

text \<open>
  What holds of the fallback build when every \<open>get\<close> settles: \<open>npm run rebuild\<close> is
  started if and only if no artifact was both written to the target path and
  verified.  When an artifact is written and the verification command succeeds, \<open>main\<close>
  returns normally and the build is never started; in every other case the build is
  started exactly once.
\<close>

lemma fallback_iff_no_verified_artifact:
  assumes "settles w"
  shows "\<exists>r s' new. main w platform s = Some (r, s') \<and> trace s' = trace s @ new \<and>
           (if wrote (artifactPath w) new \<and> verified w new
            then builds new = 0 \<and> r = Inr ()
            else builds new = 1)"
proof -
  from main_total[OF assms] obtain r s' where m: "main w platform s = Some (r, s')" by fastforce
  from main_delta[OF m] obtain new where "trace s' = trace s @ new"
    "builds new = (if wrote (artifactPath w) new \<and> verified w new then 0 else 1)"
    "r = (if wrote (artifactPath w) new \<and> verified w new then Inr ()
          else case rejection (child_exec w ''npm run rebuild'') of None \<Rightarrow> Inr () | Some e \<Rightarrow> Inl e)"
    by blast
  with m show ?thesis by (intro exI[of _ r] exI[of _ s'] exI[of _ new]) simp
qed

lemma fallback_iff_no_verified_artifact_example:
  "settles demo_world \<and>
   (\<exists>r s' new. main demo_world ''darwin'' demo_state = Some (r, s') \<and>
      trace s' = trace demo_state @ new \<and>
      (if wrote (artifactPath demo_world) new \<and> verified demo_world new
       then builds new = 0 \<and> r = Inr ()
       else builds new = 1)) \<and>
   map_option (\<lambda>(r, s). (r, builds (trace s), wrote (artifactPath demo_world) (trace s), verified demo_world (trace s)))
     (main demo_world ''darwin'' demo_state) = Some (Inr (), 0, True, True) \<and>
   settles failing_tests_world \<and>
   (\<exists>r s' new. main failing_tests_world ''darwin'' demo_state = Some (r, s') \<and>
      trace s' = trace demo_state @ new \<and>
      (if wrote (artifactPath failing_tests_world) new \<and> verified failing_tests_world new
       then builds new = 0 \<and> r = Inr ()
       else builds new = 1)) \<and>
   map_option (\<lambda>(r, s). (r, builds (trace s), wrote (artifactPath failing_tests_world) (trace s), verified failing_tests_world (trace s)))
     (main failing_tests_world ''darwin'' demo_state) = Some (Inr (), 1, True, False)"
proof -
  note a = fallback_iff_no_verified_artifact[OF settles_demo_world, of "''darwin''" demo_state]
  note b = fallback_iff_no_verified_artifact[OF settles_failing_tests_world, of "''darwin''" demo_state]
  have 1: "map_option (\<lambda>(r, s). (r, builds (trace s), wrote (artifactPath demo_world) (trace s), verified demo_world (trace s)))
     (main demo_world ''darwin'' demo_state) = Some (Inr (), 0, True, True)"
    by code_simp
  have 2: "map_option (\<lambda>(r, s). (r, builds (trace s), wrote (artifactPath failing_tests_world) (trace s), verified failing_tests_world (trace s)))
     (main failing_tests_world ''darwin'' demo_state) = Some (Inr (), 1, True, False)"
    by code_simp
  show ?thesis
    using settles_demo_world a 1 settles_failing_tests_world b 2 by (intro conjI) assumption+
qed

text \<open>
  Claim C1 says that the fallback build is started exactly once in every run in which
  no artifact was written and verified.  When the server closes the connection in the
  middle of the body of the brotli asset, the awaited \<open>get\<close> never settles: \<open>main\<close> goes
  no further than its first \<open>await get\<close>, writes no artifact and never starts the build.
\<close>

theorem main_never_builds_when_download_is_cut:
  "getAssetUrlPrefix cut_brotli_world ''darwin'' demo_state = Some demo_url \<and>
   https_get cut_brotli_world (demo_url @ ''.br'') = Response 200 None [''AB''] False \<and>
   get cut_brotli_world (demo_url @ ''.br'') (log (trying_message demo_url ''.br'') demo_state) = None \<and>
   download cut_brotli_world demo_url demo_state = None \<and>
   main cut_brotli_world ''darwin'' demo_state = None"
  by code_simp

lemma main_after_checks:
  "checks w platform s = Some (False, s1) \<Longrightarrow>
   main w platform s =
     Some ((case rejection (child_exec w ''npm run rebuild'') of None \<Rightarrow> Inr () | Some e \<Rightarrow> Inl e),
           emit (Exec ''npm run rebuild'' True) (log ''Building locally ...'' s1))"
  by (simp add: main_def run_eq split: option.splits)

text \<open>
  Claim C8.  Whatever else is configured, when \<open>DEVELOPMENT_SKIP_GETTING_ASSET\<close> is set
  (to a non-empty value) or the file \<open>.development\<close> can be accessed, \<open>main\<close> issues no
  request at all and starts the fallback build exactly once.
\<close>

theorem dev_mode_builds_without_network:
  assumes "truthy (env s ''DEVELOPMENT_SKIP_GETTING_ASSET'') \<or> fsp_access w ''.development''"
  shows "\<exists>r s' new. main w platform s = Some (r, s') \<and> trace s' = trace s @ new \<and>
           requests new = [] \<and> builds new = 1"
proof -
  let ?s1 = "locate_package_json w s"
  have "\<exists>m s1. checks w platform s = Some (False, s1) \<and> trace s1 = trace s @ [Log m]"
  proof (cases "load_package w ?s1")
    case None
    then have "checks w platform s = Some (False, log ''Could not retrieve and parse package.json.'' ?s1)"
      by (simp add: checks_def)
    then show ?thesis by (simp add: locate_package_json_keeps)
  next
    case (Some s2)
    have "env s2 ''DEVELOPMENT_SKIP_GETTING_ASSET'' = env ?s1 ''DEVELOPMENT_SKIP_GETTING_ASSET''"
      by (rule load_package_keeps(2)[OF Some]) simp_all
    also have "\<dots> = env s ''DEVELOPMENT_SKIP_GETTING_ASSET''"
      by (rule locate_package_json_keeps(2)) simp
    finally have dev: "isDev w s2" using assms by (auto simp: isDev_def)
    have t2: "trace s2 = trace s"
      using load_package_keeps(1)[OF Some] by (simp add: locate_package_json_keeps)
    show ?thesis
    proof (cases "artifactPath w = []")
      case True
      with Some have "checks w platform s = Some (False, log ''No artifact path was specified with --artifact.'' s2)"
        by (simp add: checks_def)
      with t2 show ?thesis by simp
    next
      case False
      with Some dev have "checks w platform s = Some (False, log ''Development flag was detected.'' s2)"
        by (simp add: checks_def)
      with t2 show ?thesis by simp
    qed
  qed
  then obtain m s1 where c: "checks w platform s = Some (False, s1)" and t: "trace s1 = trace s @ [Log m]"
    by blast
  let ?new = "[Log m, Log ''Building locally ...'', Exec ''npm run rebuild'' True]"
  obtain r where "main w platform s = Some (r, emit (Exec ''npm run rebuild'' True) (log ''Building locally ...'' s1))"
    using main_after_checks[OF c] by blast
  moreover have "trace (emit (Exec ''npm run rebuild'' True) (log ''Building locally ...'' s1)) = trace s @ ?new"
    using t by simp
  moreover have "requests ?new = [] \<and> builds ?new = 1" by simp
  ultimately show ?thesis by blast
qed

theorem dev_mode_builds_without_network_witness:
  "truthy (env dev_state ''DEVELOPMENT_SKIP_GETTING_ASSET'') \<and>
   (\<exists>r s' new. main demo_world ''darwin'' dev_state = Some (r, s') \<and> trace s' = trace dev_state @ new \<and>
      requests new = [] \<and> builds new = 1) \<and>
   map_option (\<lambda>(r, s). (r, trace s)) (main demo_world ''darwin'' dev_state) =
     Some (Inr (), [Log ''Development flag was detected.'', Log ''Building locally ...'',
                    Exec ''npm run rebuild'' True]) \<and>
   fsp_access marker_world ''.development'' \<and>
   (\<exists>r s' new. main marker_world ''darwin'' demo_state = Some (r, s') \<and> trace s' = trace demo_state @ new \<and>
      requests new = [] \<and> builds new = 1) \<and>
   map_option (\<lambda>(r, s). (r, trace s)) (main marker_world ''darwin'' demo_state) =
     Some (Inr (), [Log ''Development flag was detected.'', Log ''Building locally ...'',
                    Exec ''npm run rebuild'' True])"
proof -
  have h1: "truthy (env dev_state ''DEVELOPMENT_SKIP_GETTING_ASSET'')" by code_simp
  have h2: "fsp_access marker_world ''.development''" by code_simp
  note a = dev_mode_builds_without_network[of dev_state demo_world "''darwin''", OF disjI1, OF h1]
  note b = dev_mode_builds_without_network[of demo_state marker_world "''darwin''", OF disjI2, OF h2]
  have 1: "map_option (\<lambda>(r, s). (r, trace s)) (main demo_world ''darwin'' dev_state) =
     Some (Inr (), [Log ''Development flag was detected.'', Log ''Building locally ...'',
                    Exec ''npm run rebuild'' True])" by code_simp
  have 2: "map_option (\<lambda>(r, s). (r, trace s)) (main marker_world ''darwin'' demo_state) =
     Some (Inr (), [Log ''Development flag was detected.'', Log ''Building locally ...'',
                    Exec ''npm run rebuild'' True])" by code_simp
  show ?thesis using h1 a 1 h2 b 2 by (intro conjI) assumption+
qed

text \<open>
  Claim C3.  In every run whose downloads come to an end, the codecs are tried in the
  order brotli, gzip, each at most once; after the first successful write of the
  artifact no codec is tried and no request is issued any more, also when the
  verification fails, which leads to the fallback build.  In particular, when the
  brotli attempt downloads, decompresses and writes, the download stage ends with it
  and the gzip attempt is not made.
\<close>

theorem first_codec_success_is_final:
  assumes "settles w"
  shows "(\<exists>r s' new. main w platform s = Some (r, s') \<and> trace s' = trace s @ new \<and>
            attempts new \<in> {[], [''.br''], [''.gz''], [''.br'', ''.gz'']} \<and>
            requests (after_write (artifactPath w) new) = [] \<and>
            attempts (after_write (artifactPath w) new) = [] \<and>
            (wrote (artifactPath w) new \<and> \<not> verified w new \<longrightarrow> builds new = 1)) \<and>
         (\<forall>dec up t t1.
            zlib_brotliDecompress w = Some dec \<and> attempt w ''.br'' dec up t = Some (True, t1) \<longrightarrow>
            download w up t = Some (True, t1) \<and>
            (\<exists>new. trace t1 = trace t @ new \<and> attempts new = [''.br''] \<and> wrote (artifactPath w) new))"
proof (intro conjI allI impI)
  from main_total[OF assms] obtain r s' where m: "main w platform s = Some (r, s')" by fastforce
  from main_delta[OF m] obtain new where "trace s' = trace s @ new"
    "builds new = (if wrote (artifactPath w) new \<and> verified w new then 0 else 1)"
    "attempts new \<in> {[], [''.br''], [''.gz''], [''.br'', ''.gz'']}"
    "requests (after_write (artifactPath w) new) = []"
    "attempts (after_write (artifactPath w) new) = []"
    by blast
  with m show "\<exists>r s' new. main w platform s = Some (r, s') \<and> trace s' = trace s @ new \<and>
            attempts new \<in> {[], [''.br''], [''.gz''], [''.br'', ''.gz'']} \<and>
            requests (after_write (artifactPath w) new) = [] \<and>
            attempts (after_write (artifactPath w) new) = [] \<and>
            (wrote (artifactPath w) new \<and> \<not> verified w new \<longrightarrow> builds new = 1)"
    by (intro exI[of _ r] exI[of _ s'] exI[of _ new]) simp
next
  fix dec up t t1
  assume a: "zlib_brotliDecompress w = Some dec \<and> attempt w ''.br'' dec up t = Some (True, t1)"
  then show "download w up t = Some (True, t1)"
    by (simp add: download_def split: option.splits)
  from a have "attempt w ''.br'' dec up t = Some (True, t1)" by simp
  from attempt_delta[OF this] show "\<exists>new. trace t1 = trace t @ new \<and> attempts new = [''.br''] \<and> wrote (artifactPath w) new"
    by auto
qed

theorem first_codec_success_is_final_witness:
  "settles failing_tests_world \<and>
   (\<exists>r s' new. main failing_tests_world ''darwin'' demo_state = Some (r, s') \<and>
      trace s' = trace demo_state @ new \<and>
      attempts new \<in> {[], [''.br''], [''.gz''], [''.br'', ''.gz'']} \<and>
      requests (after_write (artifactPath failing_tests_world) new) = [] \<and>
      attempts (after_write (artifactPath failing_tests_world) new) = [] \<and>
      (wrote (artifactPath failing_tests_world) new \<and> \<not> verified failing_tests_world new \<longrightarrow> builds new = 1)) \<and>
   map_option (\<lambda>(r, s). (r, attempts (trace s), requests (trace s), builds (trace s)))
     (main failing_tests_world ''darwin'' demo_state) =
     Some (Inr (), [''.br''], [Request (demo_url @ ''.br'')], 1)"
proof -
  note a = first_codec_success_is_final[OF settles_failing_tests_world, of "''darwin''" demo_state, THEN conjunct1]
  have 1: "map_option (\<lambda>(r, s). (r, attempts (trace s), requests (trace s), builds (trace s)))
     (main failing_tests_world ''darwin'' demo_state) =
     Some (Inr (), [''.br''], [Request (demo_url @ ''.br'')], 1)" by code_simp
  show ?thesis using settles_failing_tests_world a 1 by (intro conjI) assumption+
qed

lemma succeeded_exit_codes:
  "succeeded (Exit (Some 0) None)" "\<not> succeeded (Exit (Some 1) None)"
  by (simp_all add: succeeded_def truthy_def num_truthy_def)

text \<open>
  Claim C4.  \<open>isVerified\<close> runs \<open>npm run verify-build\<close> when a verify-build script is
  configured, else \<open>npm test\<close> when a test script is configured, else it runs nothing
  and reports failure at once.  In a run that wrote the artifact (and whose downloads
  come to an end), the fallback build is never started when the selected command exits
  with code 0 and is started exactly once when it exits with code 1.
\<close>

theorem verifier_selects_command_and_decides_fallback:
  assumes "settles w"
  shows "(\<forall>t. fst (isVerified w t) =
               (case selected_command (env t) of
                  None \<Rightarrow> False
                | Some cmd \<Rightarrow> succeeded (child_exec w cmd)) \<and>
             trace (snd (isVerified w t)) = trace t @
               (case selected_command (env t) of
                  None \<Rightarrow> [Log ''No verify-build nor test scripts were found -- no way to verify the build automatically.'']
                | Some cmd \<Rightarrow>
                    Exec cmd (truthy (env t ''DEVELOPMENT_SHOW_VERIFICATION_RESULTS'')) #
                    (if succeeded (child_exec w cmd) then []
                     else [Log ''The verification has failed: building from sources ...'']))) \<and>
         (\<exists>r s' new. main w platform s = Some (r, s') \<and> trace s' = trace s @ new \<and>
            (\<forall>cmd. wrote (artifactPath w) new \<and> selected_command (env s') = Some cmd \<longrightarrow>
               (child_exec w cmd = Exit (Some 0) None \<longrightarrow> builds new = 0) \<and>
               (child_exec w cmd = Exit (Some 1) None \<longrightarrow> builds new = 1)))"
proof (intro conjI allI)
  fix t
  show "fst (isVerified w t) =
          (case selected_command (env t) of None \<Rightarrow> False | Some cmd \<Rightarrow> succeeded (child_exec w cmd))"
    by (simp add: isVerified_eq split: option.splits)
  show "trace (snd (isVerified w t)) = trace t @
               (case selected_command (env t) of
                  None \<Rightarrow> [Log ''No verify-build nor test scripts were found -- no way to verify the build automatically.'']
                | Some cmd \<Rightarrow>
                    Exec cmd (truthy (env t ''DEVELOPMENT_SHOW_VERIFICATION_RESULTS'')) #
                    (if succeeded (child_exec w cmd) then []
                     else [Log ''The verification has failed: building from sources ...'']))"
    by (simp add: isVerified_eq split: option.splits)
next
  from main_total[OF assms] obtain r s' where m: "main w platform s = Some (r, s')" by fastforce
  from main_delta[OF m] obtain new where n: "trace s' = trace s @ new"
    "builds new = (if wrote (artifactPath w) new \<and> verified w new then 0 else 1)"
    "wrote (artifactPath w) new \<longrightarrow> verified w new = outcome_ok w (env s')"
    by blast
  have "(child_exec w cmd = Exit (Some 0) None \<longrightarrow> builds new = 0) \<and>
        (child_exec w cmd = Exit (Some 1) None \<longrightarrow> builds new = 1)"
    if "wrote (artifactPath w) new \<and> selected_command (env s') = Some cmd" for cmd
    using that n succeeded_exit_codes by (auto simp: outcome_ok_def)
  with m n(1) show "\<exists>r s' new. main w platform s = Some (r, s') \<and> trace s' = trace s @ new \<and>
            (\<forall>cmd. wrote (artifactPath w) new \<and> selected_command (env s') = Some cmd \<longrightarrow>
               (child_exec w cmd = Exit (Some 0) None \<longrightarrow> builds new = 0) \<and>
               (child_exec w cmd = Exit (Some 1) None \<longrightarrow> builds new = 1))"
    by (intro exI[of _ r] exI[of _ s'] exI[of _ new]) simp
qed

theorem verifier_selects_command_and_decides_fallback_witness:
  "settles demo_world \<and>
   (\<exists>r s' new. main demo_world ''darwin'' demo_state = Some (r, s') \<and> trace s' = trace demo_state @ new \<and>
      (\<forall>cmd. wrote (artifactPath demo_world) new \<and> selected_command (env s') = Some cmd \<longrightarrow>
         (child_exec demo_world cmd = Exit (Some 0) None \<longrightarrow> builds new = 0) \<and>
         (child_exec demo_world cmd = Exit (Some 1) None \<longrightarrow> builds new = 1))) \<and>
   selected_command (env demo_state) = Some ''npm test'' \<and>
   child_exec demo_world ''npm test'' = Exit (Some 0) None \<and>
   map_option (\<lambda>(r, s). (wrote (artifactPath demo_world) (trace s), builds (trace s)))
     (main demo_world ''darwin'' demo_state) = Some (True, 0) \<and>
   settles failing_tests_world \<and>
   (\<exists>r s' new. main failing_tests_world ''darwin'' demo_state = Some (r, s') \<and> trace s' = trace demo_state @ new \<and>
      (\<forall>cmd. wrote (artifactPath failing_tests_world) new \<and> selected_command (env s') = Some cmd \<longrightarrow>
         (child_exec failing_tests_world cmd = Exit (Some 0) None \<longrightarrow> builds new = 0) \<and>
         (child_exec failing_tests_world cmd = Exit (Some 1) None \<longrightarrow> builds new = 1))) \<and>
   child_exec failing_tests_world ''npm test'' = Exit (Some 1) None \<and>
   map_option (\<lambda>(r, s). (wrote (artifactPath failing_tests_world) (trace s), builds (trace s)))
     (main failing_tests_world ''darwin'' demo_state) = Some (True, 1)"
proof -
  note a = verifier_selects_command_and_decides_fallback[OF settles_demo_world, of "''darwin''" demo_state, THEN conjunct2]
  note b = verifier_selects_command_and_decides_fallback[OF settles_failing_tests_world, of "''darwin''" demo_state, THEN conjunct2]
  have 1: "selected_command (env demo_state) = Some ''npm test''" by code_simp
  have 2: "child_exec demo_world ''npm test'' = Exit (Some 0) None" by code_simp
  have 3: "child_exec failing_tests_world ''npm test'' = Exit (Some 1) None" by code_simp
  have 4: "map_option (\<lambda>(r, s). (wrote (artifactPath demo_world) (trace s), builds (trace s)))
     (main demo_world ''darwin'' demo_state) = Some (True, 0)" by code_simp
  have 5: "map_option (\<lambda>(r, s). (wrote (artifactPath failing_tests_world) (trace s), builds (trace s)))
     (main failing_tests_world ''darwin'' demo_state) = Some (True, 1)" by code_simp
  show ?thesis
    using settles_demo_world a 1 2 4 settles_failing_tests_world b 3 5 by (intro conjI) assumption+
qed

lemma rejection_cases:
  "n \<noteq> 0 \<Longrightarrow> rejection (Exit (Some n) None) = Some (ExitCode n)"
  "sg \<noteq> [] \<Longrightarrow> rejection (Exit code (Some sg)) = Some (Killed sg)"
  "rejection (Error e) = Some (ExecError e)"
  by (simp_all add: rejection_def truthy_def js_str_def)

text \<open>
  What holds of the failures when every \<open>get\<close> settles: the only failure that leaves
  \<open>main\<close> is the failure of the fallback build.  When \<open>npm run rebuild\<close> is started and
  exits with a non-zero code, is ended by a signal or cannot be started, \<open>main\<close> rejects
  with that code, signal or error.  \<open>main\<close> never rejects otherwise: whenever no
  artifact was written and verified, whatever failed before, the fallback build is
  started.
\<close>

lemma only_fallback_build_failure_propagates:
  assumes "settles w"
  shows "\<exists>r s' new. main w platform s = Some (r, s') \<and> trace s' = trace s @ new \<and>
           (builds new = 0 \<or> builds new = 1) \<and>
           (\<not> (wrote (artifactPath w) new \<and> verified w new) \<longrightarrow> builds new = 1) \<and>
           (builds new = 0 \<longrightarrow> r = Inr ()) \<and>
           (isl r \<longrightarrow> builds new = 1 \<and> \<not> succeeded (child_exec w ''npm run rebuild'')) \<and>
           (builds new = 1 \<longrightarrow>
              (succeeded (child_exec w ''npm run rebuild'') \<longrightarrow> r = Inr ()) \<and>
              (\<forall>n. child_exec w ''npm run rebuild'' = Exit (Some n) None \<and> n \<noteq> 0 \<longrightarrow> r = Inl (ExitCode n)) \<and>
              (\<forall>code sg. child_exec w ''npm run rebuild'' = Exit code (Some sg) \<and> sg \<noteq> [] \<longrightarrow>
                 r = Inl (Killed sg)) \<and>
              (\<forall>e. child_exec w ''npm run rebuild'' = Error e \<longrightarrow> r = Inl (ExecError e)))"
proof -
  let ?out = "child_exec w ''npm run rebuild''"
  from main_total[OF assms] obtain r s' where m: "main w platform s = Some (r, s')" by fastforce
  from main_delta[OF m] obtain new where n: "trace s' = trace s @ new"
    "builds new = (if wrote (artifactPath w) new \<and> verified w new then 0 else 1)"
    "r = (if wrote (artifactPath w) new \<and> verified w new then Inr ()
          else case rejection ?out of None \<Rightarrow> Inr () | Some e \<Rightarrow> Inl e)"
    by blast
  define ok where "ok \<longleftrightarrow> wrote (artifactPath w) new \<and> verified w new"
  have n2: "builds new = (if ok then 0 else 1)" unfolding ok_def by (rule n(2))
  have n3: "r = (if ok then Inr () else case rejection ?out of None \<Rightarrow> Inr () | Some e \<Rightarrow> Inl e)"
    unfolding ok_def by (rule n(3))
  have a: "builds new = 0 \<or> builds new = 1"
    by (cases ok) (simp_all add: n2)
  have a': "\<not> (wrote (artifactPath w) new \<and> verified w new) \<longrightarrow> builds new = 1"
    using n2 by (simp add: ok_def)
  have b: "builds new = 0 \<longrightarrow> r = Inr ()"
    by (cases ok) (simp_all add: n2 n3)
  have r1: "r = (case rejection ?out of None \<Rightarrow> Inr () | Some e \<Rightarrow> Inl e)" if b1: "builds new = 1"
  proof (cases ok)
    case True
    then have "builds new = 0" by (simp add: n2)
    with b1 show ?thesis by simp
  next
    case False
    then show ?thesis by (simp add: n3)
  qed
  have c: "isl r \<longrightarrow> builds new = 1 \<and> \<not> succeeded ?out"
  proof
    assume l: "isl r"
    with a b have b1: "builds new = 1" by auto
    from l r1[OF b1] have "rejection ?out \<noteq> None" by (auto split: option.splits)
    then have "\<not> succeeded ?out" by (simp add: rejection_None)
    with b1 show "builds new = 1 \<and> \<not> succeeded ?out" by simp
  qed
  have d1: "r = Inr ()" if "builds new = 1" "succeeded ?out"
  proof -
    from that(2) have "rejection ?out = None" by (simp add: rejection_None)
    with r1[OF that(1)] show ?thesis by simp
  qed
  have d2: "r = Inl (ExitCode n)" if "builds new = 1" "?out = Exit (Some n) None \<and> n \<noteq> 0" for n
  proof -
    from that(2) have "rejection ?out = Some (ExitCode n)" by (simp add: rejection_cases)
    with r1[OF that(1)] show ?thesis by simp
  qed
  have d3: "r = Inl (Killed sg)" if "builds new = 1" "?out = Exit code (Some sg) \<and> sg \<noteq> []" for code sg
  proof -
    from that(2) have "rejection ?out = Some (Killed sg)" by (simp add: rejection_cases)
    with r1[OF that(1)] show ?thesis by simp
  qed
  have d4: "r = Inl (ExecError e)" if "builds new = 1" "?out = Error e" for e
  proof -
    from that(2) have "rejection ?out = Some (ExecError e)" by (simp add: rejection_cases)
    with r1[OF that(1)] show ?thesis by simp
  qed
  have d: "builds new = 1 \<longrightarrow>
              (succeeded ?out \<longrightarrow> r = Inr ()) \<and>
              (\<forall>n. ?out = Exit (Some n) None \<and> n \<noteq> 0 \<longrightarrow> r = Inl (ExitCode n)) \<and>
              (\<forall>code sg. ?out = Exit code (Some sg) \<and> sg \<noteq> [] \<longrightarrow> r = Inl (Killed sg)) \<and>
              (\<forall>e. ?out = Error e \<longrightarrow> r = Inl (ExecError e))"
    using d1 d2 d3 d4 by blast
  from m n(1) a a' b c d show ?thesis
    by (intro exI[of _ r] exI[of _ s'] exI[of _ new] conjI) assumption+
qed

lemma only_fallback_build_failure_propagates_example:
  "settles broken_build_world \<and>
   (\<exists>r s' new. main broken_build_world ''darwin'' demo_state = Some (r, s') \<and>
      trace s' = trace demo_state @ new \<and>
      (builds new = 0 \<or> builds new = 1) \<and>
      (\<not> (wrote (artifactPath broken_build_world) new \<and> verified broken_build_world new) \<longrightarrow> builds new = 1) \<and>
      (builds new = 0 \<longrightarrow> r = Inr ()) \<and>
      (isl r \<longrightarrow> builds new = 1 \<and> \<not> succeeded (child_exec broken_build_world ''npm run rebuild'')) \<and>
      (builds new = 1 \<longrightarrow>
         (succeeded (child_exec broken_build_world ''npm run rebuild'') \<longrightarrow> r = Inr ()) \<and>
         (\<forall>n. child_exec broken_build_world ''npm run rebuild'' = Exit (Some n) None \<and> n \<noteq> 0 \<longrightarrow>
            r = Inl (ExitCode n)) \<and>
         (\<forall>code sg. child_exec broken_build_world ''npm run rebuild'' = Exit code (Some sg) \<and> sg \<noteq> [] \<longrightarrow>
            r = Inl (Killed sg)) \<and>
         (\<forall>e. child_exec broken_build_world ''npm run rebuild'' = Error e \<longrightarrow> r = Inl (ExecError e)))) \<and>
   child_exec broken_build_world ''npm run rebuild'' = Exit (Some 2) None \<and>
   map_option (\<lambda>(r, s). (r, builds (trace s))) (main broken_build_world ''darwin'' demo_state) =
     Some (Inl (ExitCode 2), 1) \<and>
   map_option (\<lambda>(r, s). (r, builds (trace s))) (main failing_tests_world ''darwin'' demo_state) =
     Some (Inr (), 1)"
proof -
  note a = only_fallback_build_failure_propagates[OF settles_broken_build_world, of "''darwin''" demo_state]
  have 0: "child_exec broken_build_world ''npm run rebuild'' = Exit (Some 2) None" by code_simp
  have 1: "map_option (\<lambda>(r, s). (r, builds (trace s))) (main broken_build_world ''darwin'' demo_state) =
     Some (Inl (ExitCode 2), 1)" by code_simp
  have 2: "map_option (\<lambda>(r, s). (r, builds (trace s))) (main failing_tests_world ''darwin'' demo_state) =
     Some (Inr (), 1)" by code_simp
  show ?thesis using settles_broken_build_world a 0 1 2 by (intro conjI) assumption+
qed

text \<open>
  Claim C9 says that every failure before the fallback build, a failure of the
  transport among them, is recovered into the fallback build.  Here the brotli asset
  is missing, which is recovered, and the server closes the connection in the middle
  of the body of the gzip asset: no error is raised that the \<open>try\<close> block could catch,
  the awaited \<open>get\<close> never settles, and neither \<open>main\<close> nor the script goes on to the
  build.
\<close>

theorem cut_download_is_not_recovered:
  "map_option fst (get cut_gzip_world (demo_url @ ''.br'') demo_state) =
     Some (Inl (HttpStatus 404 (demo_url @ ''.br''))) \<and>
   https_get cut_gzip_world (demo_url @ ''.gz'') = Response 200 None [''AB''] False \<and>
   get cut_gzip_world (demo_url @ ''.gz'') demo_state = None \<and>
   main cut_gzip_world ''darwin'' demo_state = None \<and>
   script cut_gzip_world demo_state = None"
  by code_simp

end
